theory Spec2Isabelle
  imports Main
begin

section \<open>Strings\<close>

text \<open>
  Python strings are modelled as \<open>string\<close>, read as sequences of code points below 256
  (Latin-1). In that range the decimal digits are exactly \<open>0\<close> to \<open>9\<close>. The
  whitespace that \<open>int(str)\<close> strips is the ASCII whitespace \<open>0x09\<close> to
  \<open>0x0D\<close> and \<open>0x20\<close>, and of the other code points those that are Unicode
  spaces, \<open>0x85\<close> and \<open>0xA0\<close>; the separators \<open>0x1C\<close> to \<open>0x1F\<close> are
  not stripped, so a token holding one of them is malformed.
\<close>

definition py_isspace :: "char \<Rightarrow> bool" where
  "py_isspace c = (c \<in> set [CHR 0x09, CHR 0x0A, CHR 0x0B, CHR 0x0C, CHR 0x0D, CHR 0x20,
                              CHR 0x85, CHR 0xA0])"

definition py_strip :: "string \<Rightarrow> string" where
  "py_strip s = rev (dropWhile py_isspace (rev (dropWhile py_isspace s)))"

definition is_digit :: "char \<Rightarrow> bool" where
  "is_digit c = (c \<in> set ''0123456789'')"

definition digit_val :: "char \<Rightarrow> int" where
  "digit_val c = int (of_char c) - 48"

text \<open>
  The digit part of an integer literal accepted by \<open>int(str)\<close>: one or more digits, with
  single underscores allowed between two digits. The result is the list of digit values,
  or \<open>None\<close> where Python raises \<open>ValueError\<close>.
\<close>

fun int_digits :: "string \<Rightarrow> int list option" where
  "int_digits [] = None"
| "int_digits (c # cs) =
     (if \<not> is_digit c then None
      else (case cs of
              [] \<Rightarrow> Some [digit_val c]
            | d # ds \<Rightarrow>
                if d = CHR ''_'' then map_option (Cons (digit_val c)) (int_digits ds)
                else map_option (Cons (digit_val c)) (int_digits cs)))"

definition int_max_str_digits :: nat where
  "int_max_str_digits = 4300"

definition py_nat_literal :: "string \<Rightarrow> int option" where
  "py_nat_literal s =
     (case int_digits s of
        None \<Rightarrow> None
      | Some ds \<Rightarrow> if length ds > int_max_str_digits then None
                  else Some (foldl (\<lambda>a d. 10 * a + d) 0 ds))"

text \<open>
  \<open>int(s)\<close> for a string \<open>s\<close>: surrounding whitespace is stripped, one optional sign,
  then the digits. \<open>None\<close> is the \<open>ValueError\<close>.
\<close>

definition py_int :: "string \<Rightarrow> int option" where
  "py_int s =
     (case py_strip s of
        [] \<Rightarrow> None
      | c # cs \<Rightarrow>
          if c = CHR ''-'' then map_option uminus (py_nat_literal cs)
          else if c = CHR ''+'' then py_nat_literal cs
          else py_nat_literal (c # cs))"

text \<open>\<open>s.split(sep)\<close> for a one-character separator: always at least one part.\<close>

fun split_on :: "char \<Rightarrow> string \<Rightarrow> string list" where
  "split_on sep [] = [[]]"
| "split_on sep (c # cs) =
     (let ps = split_on sep cs
      in if c = sep then [] # ps else (c # hd ps) # tl ps)"

text \<open>\<open>s.split(sep, 1)\<close> where \<open>sep\<close> occurs in \<open>s\<close>: the text before the first
  separator and the text after it.\<close>

definition split_first :: "char \<Rightarrow> string \<Rightarrow> string \<times> string" where
  "split_first sep s = (takeWhile (\<lambda>c. c \<noteq> sep) s, drop 1 (dropWhile (\<lambda>c. c \<noteq> sep) s))"

section \<open>Index selection: \<open>_parse_indices\<close>\<close>

definition add_if_in_range :: "int \<Rightarrow> int \<Rightarrow> int set \<Rightarrow> int set" where
  "add_if_in_range max_n k sel = (if 1 \<le> k \<and> k \<le> max_n then insert k sel else sel)"

text \<open>One iteration of the loop over the comma-separated parts.\<close>

definition parse_part :: "int \<Rightarrow> string \<Rightarrow> int set \<Rightarrow> int set" where
  "parse_part max_n part sel =
     (if part = [] then sel
      else if CHR ''-'' \<in> set part then
        (case split_first (CHR ''-'') part of
           (sa, sb) \<Rightarrow>
             (case py_int sa of
                None \<Rightarrow> sel
              | Some a0 \<Rightarrow>
                  (case py_int sb of
                     None \<Rightarrow> sel
                   | Some b0 \<Rightarrow>
                       (let a = (if a0 > b0 then b0 else a0);
                            b = (if a0 > b0 then a0 else b0)
                        in fold (add_if_in_range max_n) [a..b] sel))))
      else
        (case py_int part of
           None \<Rightarrow> sel
         | Some k \<Rightarrow> add_if_in_range max_n k sel))"

text \<open>
  What one token of the selection text stands for, in the words of the spec: a single
  integer, or an inclusive range \<open>a-b\<close> given in either order; any other token stands
  for nothing.
\<close>

definition token_covers :: "string \<Rightarrow> int \<Rightarrow> bool" where
  "token_covers part k =
     (if CHR ''-'' \<in> set part then
        (case (py_int (fst (split_first (CHR ''-'') part)),
               py_int (snd (split_first (CHR ''-'') part))) of
           (Some a, Some b) \<Rightarrow> min a b \<le> k \<and> k \<le> max a b
         | _ \<Rightarrow> False)
      else py_int part = Some k)"

definition parse_indices :: "string \<Rightarrow> int \<Rightarrow> int list" where
  "parse_indices text max_n =
     sorted_list_of_set
       (fold (parse_part max_n) (split_on (CHR '','') (filter (\<lambda>c. c \<noteq> CHR '' '') text)) {})"

section \<open>HTTP: \<open>_request_with_fallback\<close>\<close>

text \<open>
  A response as the code reads it: the status code, the headers, the final URL, and the
  body as the stream of chunks that \<open>iter_content\<close> still has to deliver.
  \<open>body_error\<close> is an exception the stream raises once those chunks are delivered
  (\<open>None\<close>: the stream ends normally); \<open>consumed\<close> is the flag that \<open>requests\<close>
  sets when a stream has been read to its end, and \<open>cached\<close> is the content that
  \<open>requests\<close> keeps once \<open>r.text\<close> has read the whole body.
\<close>

record response =
  status_code :: int
  headers :: "(string \<times> string) list"
  url :: string
  body :: "string list"
  body_error :: "string option"
  consumed :: bool
  cached :: "string option"

datatype http_method = GET | POST

datatype exn =
    RequestException string
  | HTTPError int
  | RuntimeError string
  | ValueError string
  | OSError string
  | UnboundLocalError string

text \<open>
  The remote side: what the \<open>n\<close>-th request of the session (counted from 0) is
  answered with, given its verb and URL. \<open>Inl msg\<close> is a network-level exception
  raised by \<open>session.get\<close> or \<open>session.post\<close>.
\<close>

type_synonym server = "nat \<Rightarrow> http_method \<Rightarrow> string \<Rightarrow> string + response"

text \<open>What the code does to the network and the clock, in order.\<close>

record net =
  requests :: "(http_method \<times> string) list"
  sleeps :: "int list"
  closed :: "response list"

definition send :: "server \<Rightarrow> http_method \<Rightarrow> string \<Rightarrow> net \<Rightarrow> (string + response) \<times> net" where
  "send srv m u n = (srv (length (requests n)) m u, n\<lparr>requests := requests n @ [(m, u)]\<rparr>)"

definition sleep :: "int \<Rightarrow> net \<Rightarrow> net" where
  "sleep d n = n\<lparr>sleeps := sleeps n @ [d]\<rparr>"

definition close :: "response \<Rightarrow> net \<Rightarrow> net" where
  "close r n = n\<lparr>closed := closed n @ [r]\<rparr>"

text \<open>\<open>min(8, 2 ** (a - 1))\<close>; the loop only runs with \<open>a \<ge> 1\<close>.\<close>

definition backoff :: "int \<Rightarrow> int" where
  "backoff a = min 8 (2 ^ nat (a - 1))"

definition retryable :: "response \<Rightarrow> bool" where
  "retryable r = (status_code r \<ge> 500 \<or> status_code r = 429)"

text \<open>
  The local variables \<open>last_exc\<close> and \<open>r\<close> (here \<open>cur_r\<close>) of
  \<open>_request_with_fallback\<close>; \<open>r\<close> is unbound until the first assignment. The optional \<open>log\<close> callback is \<open>None\<close> in every
  call the program makes, so the model has no log lines here.
\<close>

record locals =
  last_exc :: "exn option"
  cur_r :: "response option"

text \<open>
  The part of the loop body from the status test of line 116 on: either \<open>continue\<close>
  after the back-off sleep (\<open>False\<close>) or \<open>return r\<close> (\<open>True\<close>).
\<close>

definition classify :: "int \<Rightarrow> locals \<Rightarrow> response \<Rightarrow> net \<Rightarrow> bool \<times> locals \<times> net" where
  "classify a l resp n =
     (if retryable resp then (False, l\<lparr>cur_r := Some resp\<rparr>, sleep (backoff a) n)
      else (True, l\<lparr>cur_r := Some resp\<rparr>, n))"

text \<open>One iteration of the loop, attempt number \<open>a\<close>.\<close>

definition attempt :: "server \<Rightarrow> string \<Rightarrow> int \<Rightarrow> locals \<Rightarrow> net \<Rightarrow> bool \<times> locals \<times> net" where
  "attempt srv u a l n =
     (case send srv GET u n of
        (Inl e, n1) \<Rightarrow>
          (False, l\<lparr>last_exc := Some (RequestException e)\<rparr>, sleep (backoff a) n1)
      | (Inr r1, n1) \<Rightarrow>
          if status_code r1 = 405 \<or> status_code r1 = 403 then
            (case send srv POST u (close r1 n1) of
               (Inl e, n2) \<Rightarrow>
                 (False, l\<lparr>last_exc := Some (RequestException e), cur_r := Some r1\<rparr>,
                  sleep (backoff a) n2)
             | (Inr r2, n2) \<Rightarrow> classify a l r2 n2)
          else classify a l r1 n1)"

text \<open>The loop over the attempt numbers and the code after it.\<close>

fun attempts_loop ::
  "server \<Rightarrow> string \<Rightarrow> int list \<Rightarrow> locals \<Rightarrow> net \<Rightarrow> (exn + response) \<times> net" where
  "attempts_loop srv u [] l n =
     (case last_exc l of
        Some e \<Rightarrow> (Inl e, n)
      | None \<Rightarrow>
          (case cur_r l of
             None \<Rightarrow> (Inl (UnboundLocalError ''r''), n)
           | Some resp \<Rightarrow> (Inr resp, n)))"
| "attempts_loop srv u (a # as) l n =
     (case attempt srv u a l n of
        (True, l', n') \<Rightarrow>
          (case cur_r l' of
             None \<Rightarrow> (Inl (UnboundLocalError ''r''), n')
           | Some resp \<Rightarrow> (Inr resp, n'))
      | (False, l', n') \<Rightarrow> attempts_loop srv u as l' n')"

definition request_with_fallback ::
  "server \<Rightarrow> string \<Rightarrow> int \<Rightarrow> net \<Rightarrow> (exn + response) \<times> net" where
  "request_with_fallback srv u attempts n =
     attempts_loop srv u [1..max 1 attempts] \<lparr>last_exc = None, cur_r = None\<rparr> n"

text \<open>Values used in the examples: a response with nothing but a status and a URL, and
  the state before any request.\<close>

definition http_resp :: "int \<Rightarrow> string \<Rightarrow> response" where
  "http_resp code u =
     \<lparr>status_code = code, headers = [], url = u, body = [], body_error = None,
      consumed = False, cached = None\<rparr>"

definition new_net :: net where
  "new_net = \<lparr>requests = [], sleeps = [], closed = []\<rparr>"

text \<open>The only exceptions \<open>last_exc\<close> ever holds are those raised by the requests.\<close>

definition locals_ok :: "locals \<Rightarrow> bool" where
  "locals_ok l = (\<forall>x. last_exc l \<noteq> Some (UnboundLocalError x))"

section \<open>Text helpers\<close>

text \<open>\<open>str.lower\<close> on Latin-1 code points: \<open>A\<close> to \<open>Z\<close> and the accented capitals
  \<open>0xC0\<close> to \<open>0xDE\<close> (without the multiplication sign \<open>0xD7\<close>) move up by 32.\<close>

definition lower_char :: "char \<Rightarrow> char" where
  "lower_char c =
     (let k = (of_char c :: nat)
      in if (65 \<le> k \<and> k \<le> 90) \<or> (192 \<le> k \<and> k \<le> 222 \<and> k \<noteq> 215) then char_of (k + 32)
         else c)"

definition py_lower :: "string \<Rightarrow> string" where
  "py_lower s = map lower_char s"

text \<open>\<open>s.startswith(p)\<close> and \<open>p in s\<close>.\<close>

definition startswith :: "string \<Rightarrow> string \<Rightarrow> bool" where
  "startswith s p = (take (length p) s = p)"

fun contains :: "string \<Rightarrow> string \<Rightarrow> bool" where
  "contains [] p = (p = [])"
| "contains (c # cs) p = (startswith (c # cs) p \<or> contains cs p)"

text \<open>\<open>s.rfind(c)\<close> for one character: the last index of \<open>c\<close>, or \<open>-1\<close>.\<close>

definition rfind :: "string \<Rightarrow> char \<Rightarrow> int" where
  "rfind s c =
     (if c \<in> set s then int (length s) - 1 - int (length (takeWhile (\<lambda>x. x \<noteq> c) (rev s)))
      else - 1)"

text \<open>\<open>str(n)\<close> for an integer.\<close>

fun show_nat :: "nat \<Rightarrow> string" where
  "show_nat n = (if n < 10 then [char_of (48 + n)] else show_nat (n div 10) @ [char_of (48 + n mod 10)])"

definition show_int :: "int \<Rightarrow> string" where
  "show_int k = (if k < 0 then CHR ''-'' # show_nat (nat (- k)) else show_nat (nat k))"

text \<open>
  \<open>r.headers.get(name, default)\<close>: the header dictionary of \<open>requests\<close> compares names
  without regard to case; a response holds each header name once.
\<close>

definition headers_get :: "(string \<times> string) list \<Rightarrow> string \<Rightarrow> string \<Rightarrow> string" where
  "headers_get hs name dflt =
     (case find (\<lambda>(k, v). py_lower k = py_lower name) hs of
        Some (k, v) \<Rightarrow> v
      | None \<Rightarrow> dflt)"

definition looks_like_media_contenttype :: "string \<Rightarrow> bool" where
  "looks_like_media_contenttype ctype =
     (let c = py_lower ctype
      in startswith c ''image/'' \<or> startswith c ''video/'' \<or> contains c ''octet-stream'')"

section \<open>The environment of a run\<close>

text \<open>
  What \<open>json.loads\<close> returns, as far as the code looks at it: a dictionary or something
  else; a dictionary value is a string or any other value, of which the code uses only its
  truth value and its \<open>str()\<close>. Dictionary keys are unique.
\<close>

datatype jvalue = JString string | JOther bool string

datatype json = JDict "(string \<times> jvalue) list" | JNotDict

fun truthy :: "jvalue \<Rightarrow> bool" where
  "truthy (JString s) = (s \<noteq> [])"
| "truthy (JOther t s) = t"

fun py_str :: "jvalue \<Rightarrow> string" where
  "py_str (JString s) = s"
| "py_str (JOther t s) = s"

text \<open>A path is the list of its components (\<open>Path.parts\<close>); the last one is the name.\<close>

type_synonym path = "string list"

datatype fs_op =
    Mkdir path
  | OpenWrite path
  | Write path
  | WriteText path
  | Unlink path
  | Replace path path

text \<open>
  Everything outside the program that a run depends on:
  \<^item> \<open>server\<close>: the remote side;
  \<^item> \<open>json_loads\<close>, \<open>search_amazonaws\<close>, \<open>search_media_link\<close>: the library calls
    \<open>json.loads\<close> (\<open>None\<close>: it raises) and \<open>re.search\<close> with the two patterns of
    \<open>_resolve_media_response\<close> (the matched text, if any);
  \<^item> \<open>stop_from\<close>: the stop event is set from this poll of \<open>is_set\<close> on (\<open>None\<close>:
    never); the program never clears it during a run;
  \<^item> \<open>ffmpeg_path\<close>, \<open>ffprobe_path\<close>: the two results of \<open>_find_ffmpeg\<close>;
  \<^item> \<open>ffprobe_codec\<close>: the stripped output of the probe for a file's content (empty
    when the probe fails);
  \<^item> \<open>ffmpeg_run\<close>: the converter process, given whether it only remuxes and the content
    of its input file (\<open>None\<close>: no such file): whether it exits with status 0, and what
    it leaves in its output file (\<open>None\<close>: it writes no output file). It writes no
    other file;
  \<^item> \<open>denied\<close>: the file operations that the operating system refuses (they raise
    \<open>OSError\<close>).
\<close>

record env =
  server :: server
  json_loads :: "string \<Rightarrow> json option"
  search_amazonaws :: "string \<Rightarrow> string option"
  search_media_link :: "string \<Rightarrow> string option"
  stop_from :: "nat option"
  ffmpeg_path :: "string option"
  ffprobe_path :: "string option"
  ffprobe_codec :: "string \<Rightarrow> string"
  ffmpeg_run :: "bool \<Rightarrow> string option \<Rightarrow> bool \<times> string option"
  denied :: "fs_op \<Rightarrow> bool"

section \<open>Indirection: \<open>_resolve_media_response\<close>\<close>

text \<open>
  The loop that reads the body for parsing: chunks are appended (empty ones skipped) until
  the content is longer than 1 MiB or the stream ends. The result is the content, the
  chunks not yet read, and whether the loop was left by \<open>break\<close>.
\<close>

fun read_upto :: "string list \<Rightarrow> string \<Rightarrow> string \<times> string list \<times> bool" where
  "read_upto [] content = (content, [], False)"
| "read_upto (chunk # rest) content =
     (let content' = (if chunk \<noteq> [] then content @ chunk else content)
      in if length content' > 1024 * 1024 then (content', rest, True)
         else read_upto rest content')"

text \<open>
  \<open>r.iter_content(...)\<close>: the chunks the loop over it receives. A consumed response
  raises at the call unless its content is cached, which is then delivered from memory.
\<close>

definition iter_content :: "response \<Rightarrow> exn + string list" where
  "iter_content resp =
     (if consumed resp then
        (case cached resp of
           None \<Rightarrow> Inl (RequestException ''StreamConsumedError'')
         | Some c \<Rightarrow> Inr (if c = [] then [] else [c]))
      else Inr (body resp))"

text \<open>
  Lines 144 to 153: the text read from the response, and the response afterwards. Every
  exception of the stream is swallowed. Decoding is taken as the identity on the bytes
  read.
\<close>

definition read_for_parsing :: "response \<Rightarrow> string \<times> response" where
  "read_for_parsing resp =
     (case iter_content resp of
        Inl e \<Rightarrow> ([], resp)
      | Inr chunks \<Rightarrow>
          (case read_upto chunks [] of
             (content, rest, stopped) \<Rightarrow>
               (content,
                if consumed resp then resp
                else resp\<lparr>body := rest,
                          consumed := (\<not> stopped \<and> body_error resp = None)\<rparr>)))"

text \<open>The loop over the four keys: the first key whose value is truthy gives
  \<open>str\<close> of that value.\<close>

fun first_url_key :: "json \<Rightarrow> string list \<Rightarrow> string option" where
  "first_url_key data [] = None"
| "first_url_key data (k # ks) =
     (case data of
        JNotDict \<Rightarrow> first_url_key data ks
      | JDict kv \<Rightarrow>
          (case map_of kv k of
             None \<Rightarrow> first_url_key data ks
           | Some v \<Rightarrow> if truthy v then Some (py_str v) else first_url_key data ks))"

definition url_keys :: "string list" where
  "url_keys = [''url'', ''signedUrl'', ''download_url'', ''mediaUrl'']"

text \<open>Lines 156 to 174: the candidate URL found in the text (\<open>new_url\<close>).\<close>

definition find_new_url :: "env \<Rightarrow> string \<Rightarrow> string option" where
  "find_new_url env text =
     (let new_url = (case json_loads env text of
                       None \<Rightarrow> None
                     | Some data \<Rightarrow> first_url_key data url_keys)
      in if new_url = None \<or> new_url = Some [] then
           (case search_amazonaws env text of
              Some m \<Rightarrow> Some m
            | None \<Rightarrow>
                (case search_media_link env text of
                   Some m2 \<Rightarrow> Some m2
                 | None \<Rightarrow> new_url))
         else new_url)"

definition resolve_media_response ::
  "env \<Rightarrow> string \<Rightarrow> net \<Rightarrow> (exn + response \<times> string) \<times> net" where
  "resolve_media_response env u n =
     (case request_with_fallback (server env) u 3 n of
        (Inl e, n1) \<Rightarrow> (Inl e, n1)
      | (Inr resp, n1) \<Rightarrow>
          if status_code resp \<ge> 400 \<and> status_code resp \<noteq> 403 \<and> status_code resp \<noteq> 405
          then (Inr (resp, url resp), n1)
          else if looks_like_media_contenttype (headers_get (headers resp) ''Content-Type'' [])
          then (Inr (resp, url resp), n1)
          else
            (case read_for_parsing resp of
               (text, resp') \<Rightarrow>
                 (case find_new_url env text of
                    None \<Rightarrow> (Inr (resp', url resp'), n1)
                  | Some new_url \<Rightarrow>
                      if new_url = [] then (Inr (resp', url resp'), n1)
                      else
                        (case request_with_fallback (server env) new_url 3 (close resp' n1) of
                           (Inl e, n2) \<Rightarrow> (Inl e, n2)
                         | (Inr r2, n2) \<Rightarrow> (Inr (r2, new_url), n2)))))"

text \<open>Example values: an environment with no tools, no cancellation and no refused file
  operation, whose library searches find nothing; and a JSON wrapper whose \<open>url\<close> is
  the empty string.\<close>

definition ex_env :: "server \<Rightarrow> env" where
  "ex_env srv =
     \<lparr>server = srv, json_loads = (\<lambda>t. None), search_amazonaws = (\<lambda>t. None),
      search_media_link = (\<lambda>t. None), stop_from = None, ffmpeg_path = None,
      ffprobe_path = None, ffprobe_codec = (\<lambda>c. []), ffmpeg_run = (\<lambda>cp c. (False, None)),
      denied = (\<lambda>x. False)\<rparr>"

definition json_resp :: "string \<Rightarrow> string \<Rightarrow> response" where
  "json_resp u text =
     \<lparr>status_code = 200, headers = [(''Content-Type'', ''application/json'')], url = u,
      body = [text], body_error = None, consumed = False, cached = None\<rparr>"

definition empty_url_body :: string where
  \<open>empty_url_body = ''{"url": ""}''\<close>

definition empty_url_env :: env where
  "empty_url_env =
     (ex_env (\<lambda>k m u. Inr (json_resp u empty_url_body)))
       \<lparr>json_loads := (\<lambda>t. if t = empty_url_body then Some (JDict [(''url'', JString [])])
                           else None)\<rparr>"

definition wrapped_url_body :: string where
  \<open>wrapped_url_body = ''{"url": "https://s3.amazonaws.com/b/x.mp4"}''\<close>

definition wrapped_url_env :: env where
  "wrapped_url_env =
     (ex_env (\<lambda>k m u. if k = 0 then Inr (json_resp u wrapped_url_body)
                       else Inr ((http_resp 200 u)\<lparr>headers := [(''Content-Type'', ''video/mp4'')],
                                                  body := [''data'']\<rparr>)))
       \<lparr>json_loads := (\<lambda>t. if t = wrapped_url_body
                           then Some (JDict [(''url'', JString ''https://s3.amazonaws.com/b/x.mp4'')])
                           else None)\<rparr>"

section \<open>Extensions: \<open>_guess_ext_from_headers\<close> and \<open>_ext_from_url\<close>\<close>

text \<open>
  \<open>re.search(r"filename=\"?([^\";]+)\"?", cd)\<close>, group 1: at the leftmost place where
  \<open>filename=\<close> is followed, after one optional double quote, by at least one character
  that is neither a double quote nor a semicolon, the longest run of such characters.
  (Where a quote follows \<open>filename=\<close> and no name follows the quote, giving the quote
  back does not help: the name would have to start with that quote.)
\<close>

definition name_char :: "char \<Rightarrow> bool" where
  "name_char c = (c \<noteq> CHR 0x22 \<and> c \<noteq> CHR '';'')"

fun search_filename :: "string \<Rightarrow> string option" where
  "search_filename [] = None"
| "search_filename (c # cs) =
     (if startswith (c # cs) ''filename='' then
        (let rest = drop 9 (c # cs);
             rest' = (case rest of [] \<Rightarrow> [] | q # qs \<Rightarrow> if q = CHR 0x22 then qs else rest);
             name = takeWhile name_char rest'
         in if name \<noteq> [] then Some name else search_filename cs)
      else search_filename cs)"

text \<open>
  \<open>os.path.splitext(p)[1]\<close>: the text from the last dot on, when that dot comes after
  the last separator \<open>/\<close> and some character between them is not a dot
  (\<open>posixpath\<close>; paths and file names follow the POSIX flavour throughout).
\<close>

definition splitext_ext :: "string \<Rightarrow> string" where
  "splitext_ext p =
     (let sepIndex = rfind p (CHR ''/'');
          dotIndex = rfind p (CHR ''.'')
      in if dotIndex > sepIndex \<and>
            list_ex (\<lambda>c. c \<noteq> CHR ''.'')
              (take (nat (dotIndex - (sepIndex + 1))) (drop (nat (sepIndex + 1)) p))
         then drop (nat dotIndex) p
         else [])"

definition guess_ext_from_headers :: "response \<Rightarrow> string \<Rightarrow> string" where
  "guess_ext_from_headers resp fallback =
     (let ctype = py_lower (headers_get (headers resp) ''Content-Type'' [])
      in if contains ctype ''image/jpeg'' then ''.jpg''
         else if contains ctype ''image/png'' then ''.png''
         else if contains ctype ''image/heic'' \<or> contains ctype ''image/heif'' then ''.heic''
         else if contains ctype ''video/mp4'' then ''.mp4''
         else if contains ctype ''video/quicktime'' then ''.mov''
         else
           (let cd = headers_get (headers resp) ''Content-Disposition'' []
            in case search_filename cd of
                 None \<Rightarrow> fallback
               | Some name \<Rightarrow>
                   (let suf = splitext_ext name
                    in if suf \<noteq> [] then suf else fallback)))"

text \<open>
  \<open>re.search(r"\.([a-z0-9]{2,4})(?:\?|$)", url, re.I)\<close>: at the leftmost dot that
  works, the longest of 4, 3 or 2 letters or digits that is followed by a question mark
  or by the end of the string (\<open>$\<close> also matches before one final newline).
\<close>

definition is_alnum :: "char \<Rightarrow> bool" where
  "is_alnum c =
     (let k = (of_char c :: nat)
      in (48 \<le> k \<and> k \<le> 57) \<or> (65 \<le> k \<and> k \<le> 90) \<or> (97 \<le> k \<and> k \<le> 122))"

definition at_end_or_query :: "string \<Rightarrow> bool" where
  "at_end_or_query rest = (rest = [] \<or> rest = [CHR 0x0A] \<or> hd rest = CHR ''?'')"

definition ext_group :: "string \<Rightarrow> string option" where
  "ext_group s =
     (let run = length (takeWhile is_alnum s)
      in map_option (\<lambda>k. take k s)
           (find (\<lambda>k. k \<le> run \<and> at_end_or_query (drop k s)) [4, 3, 2]))"

fun ext_from_url :: "string \<Rightarrow> string" where
  "ext_from_url [] = []"
| "ext_from_url (c # cs) =
     (if c = CHR ''.'' then
        (case ext_group cs of
           Some g \<Rightarrow> CHR ''.'' # py_lower g
         | None \<Rightarrow> ext_from_url cs)
      else ext_from_url cs)"

text \<open>Lines 442 to 446 of \<open>download_all\<close>: the extension chosen for the file.\<close>

definition choose_ext :: "response \<Rightarrow> string \<Rightarrow> string \<Rightarrow> string" where
  "choose_ext resp final_url default_ext =
     (let ext = guess_ext_from_headers resp default_ext
      in if ext = ''.bin'' \<or> ext = [] then
           (let from_url = ext_from_url final_url
            in if from_url \<noteq> [] then from_url else ext)
         else ext)"

definition media_resp :: "string \<Rightarrow> string \<Rightarrow> string list \<Rightarrow> response" where
  "media_resp u ctype chunks =
     \<lparr>status_code = 200, headers = [(''Content-Type'', ctype)], url = u, body = chunks,
      body_error = None, consumed = False, cached = None\<rparr>"

section \<open>Paths and files\<close>

text \<open>\<open>Path.name\<close>, \<open>Path.parent\<close>, \<open>Path.suffix\<close>, \<open>Path.stem\<close> and
  \<open>Path.with_suffix\<close> of \<open>pathlib\<close> (Python 3.8 to 3.13).\<close>

definition path_name :: "path \<Rightarrow> string" where
  "path_name p = (if p = [] then [] else last p)"

definition path_parent :: "path \<Rightarrow> path" where
  "path_parent p = butlast p"

definition path_suffix :: "path \<Rightarrow> string" where
  "path_suffix p =
     (let name = path_name p; i = rfind name (CHR ''.'')
      in if 0 < i \<and> i < int (length name) - 1 then drop (nat i) name else [])"

definition path_stem :: "path \<Rightarrow> string" where
  "path_stem p =
     (let name = path_name p; i = rfind name (CHR ''.'')
      in if 0 < i \<and> i < int (length name) - 1 then take (nat i) name else name)"

definition with_suffix :: "path \<Rightarrow> string \<Rightarrow> exn + path" where
  "with_suffix p suffix =
     (if CHR ''/'' \<in> set suffix then Inl (ValueError ''Invalid suffix'')
      else if (suffix \<noteq> [] \<and> \<not> startswith suffix ''.'') \<or> suffix = ''.''
      then Inl (ValueError ''Invalid suffix'')
      else
        (let name = path_name p
         in if name = [] then Inl (ValueError ''empty name'')
            else
              (let old_suffix = path_suffix p;
                   name' = (if old_suffix = [] then name @ suffix
                            else take (length name - length old_suffix) name @ suffix)
               in Inr (path_parent p @ [name']))))"

text \<open>The lines the program logs, one constructor for each call of \<open>log\<close>.\<close>

datatype log_line =
    LogFound nat
  | LogStopBefore
  | LogStopDuring
  | LogOk int string
  | LogH264 string
  | LogInfoNoFfmpeg
  | LogWarnKeep string
  | LogWarnMove
  | LogFail int string exn
  | LogSummary bool nat nat
  | LogFailedIndices "int list"

text \<open>
  The state of a run: the network and clock, the regular files under their paths (the
  file system is case-sensitive and has no links, so \<open>resolve()\<close> changes no path that
  the program builds; directories are not tracked), the number of polls of the stop
  event so far, the log, the counters \<open>ok\<close> and \<open>fail\<close> and the caller's list
  \<open>failed_out\<close> (the one caller passes a list).
\<close>

record state =
  network :: net
  files :: "path \<Rightarrow> string option"
  polls :: nat
  logged :: "log_line list"
  ok :: nat
  fail :: nat
  failed_out :: "int list"

definition log_msg :: "log_line \<Rightarrow> state \<Rightarrow> state" where
  "log_msg line st = st\<lparr>logged := logged st @ [line]\<rparr>"

text \<open>\<open>stop_event.is_set()\<close>: each call is one poll.\<close>

definition is_set :: "env \<Rightarrow> state \<Rightarrow> bool \<times> state" where
  "is_set env st =
     ((case stop_from env of None \<Rightarrow> False | Some k \<Rightarrow> k \<le> polls st),
      st\<lparr>polls := polls st + 1\<rparr>)"

text \<open>File operations: \<open>True\<close> when done, \<open>False\<close> when they raise.\<close>

definition path_exists :: "path \<Rightarrow> state \<Rightarrow> bool" where
  "path_exists p st = (files st p \<noteq> None)"

definition unlink :: "env \<Rightarrow> path \<Rightarrow> state \<Rightarrow> bool \<times> state" where
  "unlink env p st =
     (if denied env (Unlink p) \<or> files st p = None then (False, st)
      else (True, st\<lparr>files := (files st)(p := None)\<rparr>))"

definition replace_file :: "env \<Rightarrow> path \<Rightarrow> path \<Rightarrow> state \<Rightarrow> bool \<times> state" where
  "replace_file env src dst st =
     (case files st src of
        None \<Rightarrow> (False, st)
      | Some c \<Rightarrow>
          if denied env (Replace src dst) then (False, st)
          else (True, st\<lparr>files := ((files st)(src := None))(dst \<mapsto> c)\<rparr>))"

definition write_text :: "env \<Rightarrow> path \<Rightarrow> string \<Rightarrow> state \<Rightarrow> bool \<times> state" where
  "write_text env p content st =
     (if denied env (WriteText p) then (False, st)
      else (True, st\<lparr>files := (files st)(p \<mapsto> content)\<rparr>))"

definition open_wb :: "env \<Rightarrow> path \<Rightarrow> state \<Rightarrow> bool \<times> state" where
  "open_wb env p st =
     (if denied env (OpenWrite p) then (False, st)
      else (True, st\<lparr>files := (files st)(p \<mapsto> [])\<rparr>))"

definition write_chunk :: "env \<Rightarrow> path \<Rightarrow> string \<Rightarrow> state \<Rightarrow> bool \<times> state" where
  "write_chunk env p chunk st =
     (if denied env (Write p) then (False, st)
      else (True, st\<lparr>files := (files st)(p \<mapsto> (case files st p of None \<Rightarrow> chunk
                                                      | Some c \<Rightarrow> c @ chunk))\<rparr>))"

section \<open>Transcoder: \<open>_video_codec\<close>, \<open>_convert_to_h264_mp4\<close>, \<open>_ensure_h264_mp4\<close>\<close>

definition path_found :: "string option \<Rightarrow> bool" where
  "path_found p = (case p of None \<Rightarrow> False | Some s \<Rightarrow> s \<noteq> [])"

definition has_ffmpeg :: "env \<Rightarrow> bool" where
  "has_ffmpeg env = (path_found (ffmpeg_path env) \<and> path_found (ffprobe_path env))"

definition video_codec :: "env \<Rightarrow> path \<Rightarrow> state \<Rightarrow> string" where
  "video_codec env p st =
     (if \<not> path_found (ffprobe_path env) then []
      else (case files st p of None \<Rightarrow> [] | Some c \<Rightarrow> ffprobe_codec env c))"

definition convert_to_h264_mp4 :: "env \<Rightarrow> path \<Rightarrow> path \<Rightarrow> state \<Rightarrow> bool \<times> state" where
  "convert_to_h264_mp4 env src dst st =
     (if \<not> path_found (ffmpeg_path env) then (False, st)
      else
        (let vcodec = py_lower (video_codec env src st)
         in case ffmpeg_run env (vcodec = ''h264'' \<or> vcodec = ''avc1'') (files st src) of
              (okay, written) \<Rightarrow>
                (okay,
                 (case written of
                    None \<Rightarrow> st
                  | Some c \<Rightarrow> st\<lparr>files := (files st)(dst \<mapsto> c)\<rparr>))))"

definition temp_path_of :: "path \<Rightarrow> path" where
  "temp_path_of final_path = path_parent final_path @ [path_stem final_path @ ''_tmpconv.mp4'']"

text \<open>\<open>if p.exists(): try: p.unlink() except: pass\<close>.\<close>

definition unlink_if_exists :: "env \<Rightarrow> path \<Rightarrow> state \<Rightarrow> state" where
  "unlink_if_exists env p st = (if path_exists p st then snd (unlink env p st) else st)"

text \<open>The \<open>try\<close> block of lines 345 to 352; \<open>False\<close> when one of its calls raises.\<close>

definition swap_into_place :: "env \<Rightarrow> path \<Rightarrow> path \<Rightarrow> path \<Rightarrow> state \<Rightarrow> bool \<times> state" where
  "swap_into_place env src temp_path final_path st =
     (case (if path_exists final_path st then unlink env final_path st else (True, st)) of
        (False, st1) \<Rightarrow> (False, st1)
      | (True, st1) \<Rightarrow>
          (case replace_file env temp_path final_path st1 of
             (False, st2) \<Rightarrow> (False, st2)
           | (True, st2) \<Rightarrow>
               if path_exists src st2 \<and> src \<noteq> final_path then unlink env src st2
               else (True, st2)))"

definition ensure_h264_mp4 :: "env \<Rightarrow> path \<Rightarrow> state \<Rightarrow> (exn + path option) \<times> state" where
  "ensure_h264_mp4 env src_path st =
     (if \<not> has_ffmpeg env then (Inr None, st)
      else
        (case with_suffix src_path ''.mp4'' of
           Inl e \<Rightarrow> (Inl e, st)
         | Inr final_path \<Rightarrow>
             (let temp_path = temp_path_of final_path;
                  st1 = unlink_if_exists env temp_path st
              in case convert_to_h264_mp4 env src_path temp_path st1 of
                   (False, st2) \<Rightarrow> (Inr None, unlink_if_exists env temp_path st2)
                 | (True, st2) \<Rightarrow>
                     (case swap_into_place env src_path temp_path final_path st2 of
                        (True, st3) \<Rightarrow> (Inr (Some final_path), st3)
                      | (False, st3) \<Rightarrow> (Inr None, log_msg LogWarnMove st3)))))"

section \<open>Orchestrator: \<open>download_all\<close>\<close>

text \<open>\<open>items[:limit]\<close>.\<close>

definition slice_to :: "'a list \<Rightarrow> int \<Rightarrow> 'a list" where
  "slice_to xs k = (if k \<ge> 0 then take (nat k) xs else take (nat (int (length xs) + k)) xs)"

text \<open>
  Lines 371 to 383: the work list of pairs of an index and an item. \<open>items\<close> is what
  \<open>find_links\<close> read from the index file.
\<close>

definition build_work ::
  "(string \<times> string) list \<Rightarrow> int option \<Rightarrow> string option \<Rightarrow> (int \<times> string \<times> string) list" where
  "build_work items limit indices_text =
     (let total_all = int (length items);
          selected_indices = (case indices_text of
                                None \<Rightarrow> []
                              | Some t \<Rightarrow> if t = [] then [] else parse_indices t total_all);
          items' = (case limit of
                      None \<Rightarrow> items
                    | Some k \<Rightarrow> if selected_indices = [] \<and> k \<noteq> 0 then slice_to items k
                                else items)
      in if selected_indices \<noteq> [] then
           map (\<lambda>idx. (idx, items' ! nat (idx - 1)))
             (filter (\<lambda>idx. 1 \<le> idx \<and> idx \<le> total_all) selected_indices)
         else zip [1..int (length items')] items')"

text \<open>\<open>r.text\<close> inside \<open>try\<close> with the empty text on any exception, and the response
  afterwards.\<close>

definition response_text :: "response \<Rightarrow> string \<times> response" where
  "response_text resp =
     (case cached resp of
        Some c \<Rightarrow> (c, resp)
      | None \<Rightarrow>
          if consumed resp then ([], resp)
          else if body_error resp \<noteq> None then ([], resp\<lparr>body := []\<rparr>)
          else (concat (body resp),
                resp\<lparr>body := [], consumed := True, cached := Some (concat (body resp))\<rparr>))"

text \<open>\<open>r.raise_for_status()\<close> of \<open>requests\<close>.\<close>

definition raise_for_status :: "response \<Rightarrow> exn option" where
  "raise_for_status resp =
     (if 400 \<le> status_code resp \<and> status_code resp < 600 then Some (HTTPError (status_code resp))
      else None)"

text \<open>Lines 418 to 425, run when the status is 400 or more.\<close>

definition dump_status ::
  "env \<Rightarrow> path \<Rightarrow> nat \<Rightarrow> response \<Rightarrow> state \<Rightarrow> exn option \<times> response \<times> state" where
  "dump_status env out_root i resp st =
     (let debug_dir = out_root @ [''debug'']
      in if denied env (Mkdir debug_dir) then (Some (OSError ''mkdir''), resp, st)
         else
           (let dbg = debug_dir @
                  [''response_'' @ show_nat i @ ''_status'' @ show_int (status_code resp) @ ''.txt'']
            in case response_text resp of
                 (text, resp1) \<Rightarrow>
                   (case write_text env dbg text st of
                      (False, st1) \<Rightarrow> (Some (OSError ''write_text''), resp1, st1)
                    | (True, st1) \<Rightarrow> (raise_for_status resp1, resp1, st1))))"

text \<open>Lines 429 to 439, run when the content type is not media: they always raise.\<close>

definition save_sample :: "env \<Rightarrow> path \<Rightarrow> nat \<Rightarrow> response \<Rightarrow> state \<Rightarrow> exn \<times> state" where
  "save_sample env out_root i resp st =
     (let debug_dir = out_root @ [''debug'']
      in if denied env (Mkdir debug_dir) then (OSError ''mkdir'', st)
         else
           (let dbg = debug_dir @ [''response_'' @ show_nat i @ ''.html''];
                text = (case iter_content resp of
                          Inl e \<Rightarrow> []
                        | Inr [] \<Rightarrow> []
                        | Inr (sample # others) \<Rightarrow> sample)
            in case write_text env dbg text st of
                 (False, st1) \<Rightarrow> (OSError ''write_text'', st1)
               | (True, st1) \<Rightarrow> (RuntimeError ''Unexpected content type'', st1)))"

text \<open>The loop of lines 451 to 462 over the chunks of the body.\<close>

fun stream_chunks :: "env \<Rightarrow> path \<Rightarrow> string list \<Rightarrow> state \<Rightarrow> exn option \<times> state" where
  "stream_chunks env dest [] st = (None, st)"
| "stream_chunks env dest (chunk # rest) st =
     (case is_set env st of
        (True, st1) \<Rightarrow>
          (Some (RuntimeError ''Stopped by user''),
           unlink_if_exists env dest (log_msg LogStopDuring st1))
      | (False, st1) \<Rightarrow>
          if chunk \<noteq> [] then
            (case write_chunk env dest chunk st1 of
               (False, st2) \<Rightarrow> (Some (OSError ''write''), st2)
             | (True, st2) \<Rightarrow> stream_chunks env dest rest st2)
          else stream_chunks env dest rest st1)"

text \<open>Lines 450 to 462: open the file, stream the body into it.\<close>

definition save_stream :: "env \<Rightarrow> path \<Rightarrow> response \<Rightarrow> state \<Rightarrow> exn option \<times> state" where
  "save_stream env dest resp st =
     (case open_wb env dest st of
        (False, st1) \<Rightarrow> (Some (OSError ''open''), st1)
      | (True, st1) \<Rightarrow>
          (case iter_content resp of
             Inl e \<Rightarrow> (Some e, st1)
           | Inr chunks \<Rightarrow>
               (case stream_chunks env dest chunks st1 of
                  (Some e, st2) \<Rightarrow> (Some e, st2)
                | (None, st2) \<Rightarrow>
                    (case body_error resp of
                       None \<Rightarrow> (None, st2)
                     | Some msg \<Rightarrow>
                         if consumed resp then (None, st2)
                         else (Some (RequestException msg), st2)))))"

text \<open>Lines 467 to 476: the transcoder step of a video item.\<close>

definition transcode_step :: "env \<Rightarrow> path \<Rightarrow> state \<Rightarrow> exn option \<times> state" where
  "transcode_step env dest st =
     (case ensure_h264_mp4 env dest st of
        (Inl e, st1) \<Rightarrow> (Some e, st1)
      | (Inr (Some final_path), st1) \<Rightarrow> (None, log_msg (LogH264 (path_name final_path)) st1)
      | (Inr None, st1) \<Rightarrow>
          (None,
           if \<not> has_ffmpeg env then log_msg LogInfoNoFfmpeg st1
           else log_msg (LogWarnKeep (path_name dest)) st1))"

text \<open>
  Lines 411 to 476: the \<open>try\<close> block of one item, \<open>i\<close> being the loop counter and
  \<open>idx\<close> the item's index. The result is the exception it raises, if any.
\<close>

definition item_body ::
  "env \<Rightarrow> path \<Rightarrow> nat \<Rightarrow> int \<Rightarrow> string \<Rightarrow> string \<Rightarrow> state \<Rightarrow> exn option \<times> state" where
  "item_body env out_root i idx u media_text st =
     (let is_video = contains media_text ''video'';
          folder = out_root @ [if is_video then ''videos'' else ''images''];
          default_ext = (if is_video then ''.mp4'' else ''.jpg'');
          dest = folder @ [''memory_'' @ show_int idx @ default_ext]
      in case resolve_media_response env u (network st) of
           (Inl e, n1) \<Rightarrow> (Some e, st\<lparr>network := n1\<rparr>)
         | (Inr (resp, final_url), n1) \<Rightarrow>
             (case (if status_code resp \<ge> 400
                    then dump_status env out_root i resp (st\<lparr>network := n1\<rparr>)
                    else (None, resp, st\<lparr>network := n1\<rparr>)) of
                (Some e, resp1, st1) \<Rightarrow> (Some e, st1)
              | (None, resp1, st1) \<Rightarrow>
                  if \<not> looks_like_media_contenttype
                         (py_lower (headers_get (headers resp1) ''Content-Type'' []))
                  then (case save_sample env out_root i resp1 st1 of (e, st2) \<Rightarrow> (Some e, st2))
                  else
                    (let ext = choose_ext resp1 final_url default_ext
                     in case (if py_lower (path_suffix dest) \<noteq> py_lower ext
                              then with_suffix dest ext else Inr dest) of
                          Inl e \<Rightarrow> (Some e, st1)
                        | Inr dest1 \<Rightarrow>
                            (case save_stream env dest1 resp1 st1 of
                               (Some e, st2) \<Rightarrow> (Some e, st2)
                             | (None, st2) \<Rightarrow>
                                 (let st3 = log_msg (LogOk idx (path_name dest1))
                                              (st2\<lparr>ok := ok st2 + 1\<rparr>)
                                  in if is_video then transcode_step env dest1 st3
                                     else (None, st3))))))"

text \<open>One item with the \<open>except\<close> clause of lines 477 to 481.\<close>

definition process_item ::
  "env \<Rightarrow> path \<Rightarrow> nat \<Rightarrow> int \<Rightarrow> string \<Rightarrow> string \<Rightarrow> state \<Rightarrow> state" where
  "process_item env out_root i idx u media_text st =
     (case item_body env out_root i idx u media_text st of
        (None, st1) \<Rightarrow> st1
      | (Some e, st1) \<Rightarrow>
          log_msg (LogFail idx u e)
            (st1\<lparr>fail := fail st1 + 1, failed_out := failed_out st1 @ [idx]\<rparr>))"

text \<open>The loop of line 406 from counter \<open>i\<close> on.\<close>

fun run_items :: "env \<Rightarrow> path \<Rightarrow> nat \<Rightarrow> (int \<times> string \<times> string) list \<Rightarrow> state \<Rightarrow> state" where
  "run_items env out_root i [] st = st"
| "run_items env out_root i ((idx, u, media_text) # rest) st =
     (case is_set env st of
        (True, st1) \<Rightarrow> log_msg LogStopBefore st1
      | (False, st1) \<Rightarrow>
          run_items env out_root (Suc i) rest (process_item env out_root i idx u media_text st1))"

text \<open>
  \<open>download_all\<close> from line 364 on, for an index file that exists. The dialogs, the
  progress bar and the buttons are left out. An exception of the two \<open>mkdir\<close> calls
  leaves the function.
\<close>

definition download_all ::
  "env \<Rightarrow> path \<Rightarrow> (string \<times> string) list \<Rightarrow> int option \<Rightarrow> string option \<Rightarrow> state \<Rightarrow>
   exn + state" where
  "download_all env root_dir items limit indices_text st =
     (let out_root = root_dir @ [''snap_memories'']
      in if denied env (Mkdir (out_root @ [''images''])) \<or> denied env (Mkdir (out_root @ [''videos'']))
         then Inl (OSError ''mkdir'')
         else
           (let work = build_work items limit indices_text
            in if work = [] then Inr st
               else
                 (let st1 = log_msg (LogFound (length work)) st;
                      st2 = run_items env out_root 1 work (st1\<lparr>ok := 0, fail := 0, failed_out := []\<rparr>)
                  in case is_set env st2 of
                       (stopped, st3) \<Rightarrow>
                         (let st4 = log_msg (LogSummary stopped (ok st3) (fail st3)) st3;
                              st5 = (if failed_out st4 \<noteq> []
                                     then log_msg (LogFailedIndices (failed_out st4)) st4
                                     else st4)
                          in Inr (snd (is_set env st5))))))"

definition new_state :: state where
  "new_state =
     \<lparr>network = new_net, files = (\<lambda>p. None), polls = 0, logged = [], ok = 0, fail = 0,
      failed_out = []\<rparr>"

text \<open>Example values: an environment whose converter works on any file that exists, one
  where it fails after writing part of its output, one where the operating system refuses
  to move the converted file into place, and a state holding one file.\<close>

definition tools_env :: env where
  "tools_env =
     (ex_env (\<lambda>k m u. Inr (media_resp u ''video/mp4'' [''ab'', ''cd''])))
       \<lparr>ffmpeg_path := Some ''ffmpeg'', ffprobe_path := Some ''ffprobe'',
        ffmpeg_run := (\<lambda>cp c. case c of None \<Rightarrow> (False, None)
                                | Some x \<Rightarrow> (True, Some (''h264:'' @ x)))\<rparr>"

definition broken_tools_env :: env where
  "broken_tools_env = tools_env\<lparr>ffmpeg_run := (\<lambda>cp c. (False, Some ''partial''))\<rparr>"

definition locked_env :: env where
  "locked_env = tools_env\<lparr>denied := (\<lambda>x. case x of Replace a b \<Rightarrow> True | _ \<Rightarrow> False)\<rparr>"

definition one_file :: "path \<Rightarrow> string \<Rightarrow> state" where
  "one_file p c = new_state\<lparr>files := (\<lambda>q. if q = p then Some c else None)\<rparr>"

text \<open>
  In the requests of the state \<open>n'\<close> from position \<open>k\<close> on, every GET of \<open>u\<close>
  that the server answers with status 403 or 405 has a POST of \<open>u\<close> right after it,
  and its response is among the closed ones.
\<close>

definition post_follows :: "server \<Rightarrow> string \<Rightarrow> nat \<Rightarrow> net \<Rightarrow> bool" where
  "post_follows srv u k n' =
     (\<forall>j r1. k \<le> j \<and> j < length (requests n') \<and> requests n' ! j = (GET, u) \<and>
             srv j GET u = Inr r1 \<and> (status_code r1 = 403 \<or> status_code r1 = 405) \<longrightarrow>
             Suc j < length (requests n') \<and> requests n' ! Suc j = (POST, u) \<and>
             r1 \<in> set (closed n'))"

text \<open>The counters of a run, its failed list and its network.\<close>

definition counters :: "state \<Rightarrow> nat \<times> nat \<times> int list \<times> net" where
  "counters st = (ok st, fail st, failed_out st, network st)"

section \<open>Properties of the index selection\<close>

lemma add_if_in_range_finite: "finite sel \<Longrightarrow> finite (add_if_in_range max_n k sel)"
  by (simp add: add_if_in_range_def)

lemma add_if_in_range_bounds:
  "\<forall>k\<in>sel. 1 \<le> k \<and> k \<le> max_n \<Longrightarrow> \<forall>k\<in>add_if_in_range max_n j sel. 1 \<le> k \<and> k \<le> max_n"
  by (simp add: add_if_in_range_def)

lemma fold_add_finite: "finite sel \<Longrightarrow> finite (fold (add_if_in_range max_n) ks sel)"
  by (induction ks arbitrary: sel) (simp_all add: add_if_in_range_finite)

lemma fold_add_bounds:
  "\<forall>k\<in>sel. 1 \<le> k \<and> k \<le> max_n \<Longrightarrow>
   \<forall>k\<in>fold (add_if_in_range max_n) ks sel. 1 \<le> k \<and> k \<le> max_n"
proof (induction ks arbitrary: sel)
  case Nil
  then show ?case by simp
next
  case (Cons j ks)
  from Cons.prems have "\<forall>k\<in>add_if_in_range max_n j sel. 1 \<le> k \<and> k \<le> max_n"
    by (rule add_if_in_range_bounds)
  then show ?case using Cons.IH by simp
qed

lemma parse_part_finite: "finite sel \<Longrightarrow> finite (parse_part max_n part sel)"
  by (simp add: parse_part_def Let_def fold_add_finite add_if_in_range_finite
      split: prod.splits option.splits)

lemma parse_part_bounds:
  assumes "\<forall>k\<in>sel. 1 \<le> k \<and> k \<le> max_n"
  shows "\<forall>k\<in>parse_part max_n part sel. 1 \<le> k \<and> k \<le> max_n"
  using assms fold_add_bounds [OF assms] add_if_in_range_bounds [OF assms]
  by (simp add: parse_part_def Let_def split: prod.splits option.splits)

lemma fold_parse_part_finite: "finite sel \<Longrightarrow> finite (fold (parse_part max_n) ps sel)"
  by (induction ps arbitrary: sel) (simp_all add: parse_part_finite)

lemma fold_parse_part_bounds:
  "\<forall>k\<in>sel. 1 \<le> k \<and> k \<le> max_n \<Longrightarrow>
   \<forall>k\<in>fold (parse_part max_n) ps sel. 1 \<le> k \<and> k \<le> max_n"
proof (induction ps arbitrary: sel)
  case Nil
  then show ?case by simp
next
  case (Cons p ps)
  from Cons.prems have "\<forall>k\<in>parse_part max_n p sel. 1 \<le> k \<and> k \<le> max_n"
    by (rule parse_part_bounds)
  then show ?case using Cons.IH by simp
qed

lemma fold_add_set:
  "fold (add_if_in_range max_n) ks sel = sel \<union> {k \<in> set ks. 1 \<le> k \<and> k \<le> max_n}"
  by (induction ks arbitrary: sel) (auto simp: add_if_in_range_def)

lemma parse_part_set:
  "parse_part max_n part sel = sel \<union> {k. 1 \<le> k \<and> k \<le> max_n \<and> token_covers part k}"
proof (cases "part = []")
  case True
  then show ?thesis
    by (simp add: parse_part_def token_covers_def py_int_def py_strip_def)
next
  case False
  show ?thesis
  proof (cases "CHR ''-'' \<in> set part")
    case True
    then show ?thesis using False
      by (auto simp: parse_part_def token_covers_def fold_add_set Let_def
          split: prod.splits option.splits)
  next
    case False
    then show ?thesis using \<open>part \<noteq> []\<close>
      by (auto simp: parse_part_def token_covers_def add_if_in_range_def split: option.splits)
  qed
qed

lemma fold_parse_part_set:
  "fold (parse_part max_n) ps sel =
     sel \<union> {k. 1 \<le> k \<and> k \<le> max_n \<and> (\<exists>p\<in>set ps. token_covers p k)}"
proof (induction ps arbitrary: sel)
  case Nil
  show ?case by simp
next
  case (Cons p ps)
  have "fold (parse_part max_n) (p # ps) sel =
        parse_part max_n p sel \<union> {k. 1 \<le> k \<and> k \<le> max_n \<and> (\<exists>q\<in>set ps. token_covers q k)}"
    by (simp add: Cons.IH)
  also have "parse_part max_n p sel = sel \<union> {k. 1 \<le> k \<and> k \<le> max_n \<and> token_covers p k}"
    by (rule parse_part_set)
  finally show ?case by auto
qed

lemma parse_indices_set:
  "set (parse_indices text max_n) =
     {k. 1 \<le> k \<and> k \<le> max_n \<and>
         (\<exists>part\<in>set (split_on (CHR '','') (filter (\<lambda>c. c \<noteq> CHR '' '') text)). token_covers part k)}"
proof -
  have "finite (fold (parse_part max_n) (split_on (CHR '','') (filter (\<lambda>c. c \<noteq> CHR '' '') text)) {})"
    by (rule fold_parse_part_finite) simp
  then show ?thesis
    by (simp add: parse_indices_def fold_parse_part_set)
qed

lemma int_rejects_separators:
  "py_int ([CHR 0x1C] @ ''3'') = None \<and> parse_indices ([CHR 0x1F] @ ''3'') 5 = [] \<and>
   parse_indices ([CHR 0x09] @ ''3'' @ [CHR 0xA0]) 5 = [3]"
  by code_simp

lemma parse_indices_ex1: "parse_indices ''1,5-8'' 10 = [1, 5, 6, 7, 8]"
  by code_simp

lemma parse_indices_ex2: "parse_indices ''3-1'' 10 = [1, 2, 3]"
  by code_simp

lemma parse_indices_ex3: "parse_indices ''0,11'' 10 = []"
  by code_simp

lemma parse_indices_ex4: "parse_indices ''abc,2'' 5 = [2]"
  by code_simp

text \<open>
  C7: the four examples of the selection syntax evaluate as stated, and for every text
  and bound the result is sorted ascending, has no duplicates and holds exactly the
  numbers between 1 and the bound that some token stands for: a single integer stands
  for itself, a range for the numbers between its ends in either order (auto-swap), a
  malformed token for nothing (skipped), and numbers out of range are dropped.
\<close>

theorem parse_indices_spec:
  "parse_indices ''1,5-8'' 10 = [1, 5, 6, 7, 8] \<and>
   parse_indices ''3-1'' 10 = [1, 2, 3] \<and>
   parse_indices ''0,11'' 10 = [] \<and>
   parse_indices ''abc,2'' 5 = [2] \<and>
   sorted (parse_indices text max_n) \<and>
   distinct (parse_indices text max_n) \<and>
   (\<forall>k\<in>set (parse_indices text max_n). 1 \<le> k \<and> k \<le> max_n) \<and>
   set (parse_indices text max_n) =
     {k. 1 \<le> k \<and> k \<le> max_n \<and>
         (\<exists>part\<in>set (split_on (CHR '','') (filter (\<lambda>c. c \<noteq> CHR '' '') text)).
            token_covers part k)}"
proof -
  let ?sel = "fold (parse_part max_n) (split_on (CHR '','') (filter (\<lambda>c. c \<noteq> CHR '' '') text)) {}"
  have fin: "finite ?sel"
    by (rule fold_parse_part_finite) simp
  have bnd: "\<forall>k\<in>?sel. 1 \<le> k \<and> k \<le> max_n"
    by (rule fold_parse_part_bounds) simp
  have "set (parse_indices text max_n) = ?sel"
    using fin by (simp add: parse_indices_def)
  with bnd have "\<forall>k\<in>set (parse_indices text max_n). 1 \<le> k \<and> k \<le> max_n"
    by simp
  moreover have "sorted (parse_indices text max_n)" "distinct (parse_indices text max_n)"
    by (simp_all add: parse_indices_def)
  ultimately show ?thesis
    using parse_indices_ex1 parse_indices_ex2 parse_indices_ex3 parse_indices_ex4
      parse_indices_set
    by simp
qed

theorem parse_indices_spec_witness:
  "parse_indices ''7, 2-4,x,9'' 8 = [2, 3, 4, 7] \<and>
   (4::int) \<in> set (parse_indices ''7, 2-4,x,9'' 8) \<and> (1::int) \<le> 4 \<and> (4::int) \<le> 8 \<and>
   sorted (parse_indices ''7, 2-4,x,9'' 8) \<and> distinct (parse_indices ''7, 2-4,x,9'' 8) \<and>
   (\<exists>part\<in>set (split_on (CHR '','') (filter (\<lambda>c. c \<noteq> CHR '' '') ''7, 2-4,x,9'')).
      token_covers part 4)"
proof -
  have e: "parse_indices ''7, 2-4,x,9'' 8 = [2, 3, 4, 7]"
    by code_simp
  note t = parse_indices_spec [of "''7, 2-4,x,9''" 8]
  note rest = t [THEN conjunct2, THEN conjunct2, THEN conjunct2, THEN conjunct2]
  note srt = rest [THEN conjunct1]
  note dst = rest [THEN conjunct2, THEN conjunct1]
  note bnd = rest [THEN conjunct2, THEN conjunct2, THEN conjunct1]
  note chr = rest [THEN conjunct2, THEN conjunct2, THEN conjunct2]
  have mem: "(4::int) \<in> set (parse_indices ''7, 2-4,x,9'' 8)"
    by (simp add: e)
  from bnd mem have rng: "(1::int) \<le> 4 \<and> (4::int) \<le> 8"
    by blast
  from chr mem have cov:
    "\<exists>part\<in>set (split_on (CHR '','') (filter (\<lambda>c. c \<noteq> CHR '' '') ''7, 2-4,x,9'')).
       token_covers part 4"
    by blast
  from e mem rng srt dst cov show ?thesis
    by (intro conjI) (rule e mem srt dst cov | simp)+
qed

section \<open>Properties of \<open>_request_with_fallback\<close>\<close>


lemma upto_1_3: "[1..3::int] = [1, 2, 3]"
  by (simp add: upto.simps)

lemma backoff_vals: "backoff 1 = 1" "backoff 2 = 2" "backoff 3 = 4"
  by (simp_all add: backoff_def)

lemma attempt_get_response:
  assumes "srv (length (requests n)) GET u = Inr r1" "status_code r1 \<noteq> 405" "status_code r1 \<noteq> 403"
  shows "attempt srv u a l n = classify a l r1 (n\<lparr>requests := requests n @ [(GET, u)]\<rparr>)"
  using assms by (simp add: attempt_def send_def)

lemma attempt_get_raises:
  assumes "srv (length (requests n)) GET u = Inl e"
  shows "attempt srv u a l n =
    (False, l\<lparr>last_exc := Some (RequestException e)\<rparr>,
     n\<lparr>requests := requests n @ [(GET, u)], sleeps := sleeps n @ [backoff a]\<rparr>)"
  using assms by (simp add: attempt_def send_def sleep_def)

text \<open>
  C1: with \<open>attempts = 3\<close>, the responses 503, 503, 200 give the 200 response after
  sleeps of 1 and 2 seconds; four consecutive 503 responses give the third response, still
  503, as the result and no exception; a network exception on each of the three attempts
  raises the last of them.
\<close>

theorem request_with_fallback_retry:
  fixes srv :: server and u :: string and n :: net
  defines "k \<equiv> length (requests n)"
  shows
  "(srv k GET u = Inr r1 \<and> srv (k + 1) GET u = Inr r2 \<and> srv (k + 2) GET u = Inr r3 \<and>
    status_code r1 = 503 \<and> status_code r2 = 503 \<and> status_code r3 = 200 \<longrightarrow>
      request_with_fallback srv u 3 n =
        (Inr r3, n\<lparr>requests := requests n @ [(GET, u), (GET, u), (GET, u)],
                   sleeps := sleeps n @ [1, 2]\<rparr>)) \<and>
   (srv k GET u = Inr r1 \<and> srv (k + 1) GET u = Inr r2 \<and> srv (k + 2) GET u = Inr r3 \<and>
    srv (k + 3) GET u = Inr r4 \<and>
    status_code r1 = 503 \<and> status_code r2 = 503 \<and> status_code r3 = 503 \<and> status_code r4 = 503 \<longrightarrow>
      request_with_fallback srv u 3 n =
        (Inr r3, n\<lparr>requests := requests n @ [(GET, u), (GET, u), (GET, u)],
                   sleeps := sleeps n @ [1, 2, 4]\<rparr>)) \<and>
   (srv k GET u = Inl e1 \<and> srv (k + 1) GET u = Inl e2 \<and> srv (k + 2) GET u = Inl e3 \<longrightarrow>
      request_with_fallback srv u 3 n =
        (Inl (RequestException e3),
         n\<lparr>requests := requests n @ [(GET, u), (GET, u), (GET, u)],
           sleeps := sleeps n @ [1, 2, 4]\<rparr>))"
  unfolding k_def
  by (simp add: request_with_fallback_def upto_1_3 attempt_get_response attempt_get_raises
      classify_def retryable_def sleep_def backoff_vals)


theorem request_with_fallback_retry_witness:
  "request_with_fallback
     (\<lambda>k m u. Inr (http_resp (if k < 2 then 503 else 200) (u @ [char_of k])))
     ''https://h/a'' 3 new_net =
     (Inr (http_resp 200 (''https://h/a'' @ [char_of (2::nat)])),
      \<lparr>requests = [(GET, ''https://h/a''), (GET, ''https://h/a''), (GET, ''https://h/a'')],
       sleeps = [1, 2], closed = []\<rparr>) \<and>
   request_with_fallback (\<lambda>k m u. Inr (http_resp 503 (u @ [char_of k]))) ''https://h/a'' 3 new_net =
     (Inr (http_resp 503 (''https://h/a'' @ [char_of (2::nat)])),
      \<lparr>requests = [(GET, ''https://h/a''), (GET, ''https://h/a''), (GET, ''https://h/a'')],
       sleeps = [1, 2, 4], closed = []\<rparr>) \<and>
   request_with_fallback (\<lambda>k m u. Inl (''timeout '' @ [char_of k])) ''https://h/a'' 3 new_net =
     (Inl (RequestException (''timeout '' @ [char_of (2::nat)])),
      \<lparr>requests = [(GET, ''https://h/a''), (GET, ''https://h/a''), (GET, ''https://h/a'')],
       sleeps = [1, 2, 4], closed = []\<rparr>)"
proof -
  let ?u = "''https://h/a''"
  let ?A = "\<lambda>(k::nat) (m::http_method) u. Inr (http_resp (if k < 2 then 503 else 200) (u @ [char_of k])) :: string + response"
  let ?B = "\<lambda>(k::nat) (m::http_method) u. Inr (http_resp 503 (u @ [char_of k])) :: string + response"
  let ?C = "\<lambda>(k::nat) (m::http_method) (u::string). Inl (''timeout '' @ [char_of k]) :: string + response"
  note a = request_with_fallback_retry [of ?A new_net ?u
      "http_resp 503 (?u @ [char_of (0::nat)])" "http_resp 503 (?u @ [char_of (1::nat)])"
      "http_resp 200 (?u @ [char_of (2::nat)])"]
  note b = request_with_fallback_retry [of ?B new_net ?u
      "http_resp 503 (?u @ [char_of (0::nat)])" "http_resp 503 (?u @ [char_of (1::nat)])"
      "http_resp 503 (?u @ [char_of (2::nat)])" "http_resp 503 (?u @ [char_of (3::nat)])"]
  note c = request_with_fallback_retry [of ?C new_net ?u _ _ _ _
      "''timeout '' @ [char_of (0::nat)]" "''timeout '' @ [char_of (1::nat)]"
      "''timeout '' @ [char_of (2::nat)]"]
  have "request_with_fallback ?A ?u 3 new_net =
     (Inr (http_resp 200 (?u @ [char_of (2::nat)])),
      \<lparr>requests = [(GET, ?u), (GET, ?u), (GET, ?u)], sleeps = [1, 2], closed = []\<rparr>)"
    using a by (simp add: new_net_def http_resp_def)
  moreover have "request_with_fallback ?B ?u 3 new_net =
     (Inr (http_resp 503 (?u @ [char_of (2::nat)])),
      \<lparr>requests = [(GET, ?u), (GET, ?u), (GET, ?u)], sleeps = [1, 2, 4], closed = []\<rparr>)"
    using b by (simp add: new_net_def http_resp_def)
  moreover have "request_with_fallback ?C ?u 3 new_net =
     (Inl (RequestException (''timeout '' @ [char_of (2::nat)])),
      \<lparr>requests = [(GET, ?u), (GET, ?u), (GET, ?u)], sleeps = [1, 2, 4], closed = []\<rparr>)"
    using c by (simp add: new_net_def)
  ultimately show ?thesis by simp
qed

lemma attempt_cases:
  assumes "attempt srv u a l n = (b, l', n')"
  shows "(last_exc l' \<noteq> None \<or> cur_r l' \<noteq> None) \<and> (b \<longrightarrow> cur_r l' \<noteq> None) \<and>
         (locals_ok l \<longrightarrow> locals_ok l') \<and> (\<exists>rest. requests n' = requests n @ (GET, u) # rest)"
  using assms
  by (auto simp: attempt_def send_def classify_def sleep_def close_def locals_ok_def
      split: sum.splits if_splits)

lemma attempts_loop_requests:
  "\<exists>rest. requests (snd (attempts_loop srv u as l n)) = requests n @ rest"
proof (induction as arbitrary: l n)
  case Nil
  show ?case by (simp split: option.splits)
next
  case (Cons a as)
  obtain b l' n' where at: "attempt srv u a l n = (b, l', n')"
    by (cases "attempt srv u a l n") auto
  from attempt_cases [OF at] obtain rest where rq: "requests n' = requests n @ (GET, u) # rest"
    by blast
  show ?case
  proof (cases b)
    case True
    then show ?thesis using at rq by (simp split: option.splits)
  next
    case False
    from Cons.IH [of l' n'] obtain rest' where
      "requests (snd (attempts_loop srv u as l' n')) = requests n' @ rest'" by blast
    then show ?thesis using at rq False by simp
  qed
qed

lemma attempts_loop_bound:
  assumes "locals_ok l" "as \<noteq> [] \<or> last_exc l \<noteq> None \<or> cur_r l \<noteq> None"
  shows "fst (attempts_loop srv u as l n) \<noteq> Inl (UnboundLocalError x)"
  using assms
proof (induction as arbitrary: l n)
  case Nil
  then show ?case by (auto simp: locals_ok_def split: option.splits)
next
  case (Cons a as)
  obtain b l' n' where at: "attempt srv u a l n = (b, l', n')"
    by (cases "attempt srv u a l n") auto
  note ac = attempt_cases [OF at]
  show ?case
  proof (cases b)
    case True
    then show ?thesis using at ac by (auto split: option.splits)
  next
    case False
    have "fst (attempts_loop srv u as l' n') \<noteq> Inl (UnboundLocalError x)"
      using Cons.IH [of l' n'] ac Cons.prems(1) by blast
    then show ?thesis using at False by simp
  qed
qed

lemma upto_max_1: "[1..max 1 attempts] = 1 # [2..max 1 attempts]"
  by (simp add: upto_rec1)

lemma first_attempt_requests:
  "\<exists>rest. requests (snd (attempts_loop srv u (a # as) l n)) = requests n @ (GET, u) # rest"
proof -
  obtain b l' n' where at: "attempt srv u a l n = (b, l', n')"
    by (cases "attempt srv u a l n") auto
  from attempt_cases [OF at] obtain rest where rq: "requests n' = requests n @ (GET, u) # rest"
    by blast
  show ?thesis
  proof (cases b)
    case True
    then show ?thesis using at rq by (simp split: option.splits)
  next
    case False
    from attempts_loop_requests [of srv u as l' n'] obtain rest' where
      "requests (snd (attempts_loop srv u as l' n')) = requests n' @ rest'" by blast
    then show ?thesis using at rq False by simp
  qed
qed

text \<open>
  C10: for every value of \<open>attempts\<close> the function makes at least one attempt (its
  first request is a GET of the URL), it never ends on an unbound \<open>r\<close>, and a value
  of 0 or less behaves as the value 1.
\<close>

theorem request_with_fallback_total:
  "(\<forall>x. fst (request_with_fallback srv u attempts n) \<noteq> Inl (UnboundLocalError x)) \<and>
   (\<exists>rest. requests (snd (request_with_fallback srv u attempts n)) = requests n @ (GET, u) # rest) \<and>
   (attempts \<le> 0 \<longrightarrow> request_with_fallback srv u attempts n = request_with_fallback srv u 1 n)"
proof (intro conjI allI impI)
  fix x
  show "fst (request_with_fallback srv u attempts n) \<noteq> Inl (UnboundLocalError x)"
    unfolding request_with_fallback_def upto_max_1
    by (rule attempts_loop_bound) (simp_all add: locals_ok_def)
next
  show "\<exists>rest. requests (snd (request_with_fallback srv u attempts n)) = requests n @ (GET, u) # rest"
    unfolding request_with_fallback_def upto_max_1 by (rule first_attempt_requests)
next
  assume "attempts \<le> 0"
  then have "max 1 attempts = 1" by simp
  then show "request_with_fallback srv u attempts n = request_with_fallback srv u 1 n"
    by (simp add: request_with_fallback_def)
qed

theorem request_with_fallback_total_witness:
  "(-2::int) \<le> 0 \<and>
   request_with_fallback (\<lambda>k m u. Inr (http_resp 503 u)) ''https://h/a'' (-2) new_net =
     (Inr (http_resp 503 ''https://h/a''),
      \<lparr>requests = [(GET, ''https://h/a'')], sleeps = [1], closed = []\<rparr>)"
proof -
  have one: "[1..1::int] = [1]" by (simp add: upto.simps)
  have "request_with_fallback (\<lambda>k m u. Inr (http_resp 503 u)) ''https://h/a'' 1 new_net =
     (Inr (http_resp 503 ''https://h/a''),
      \<lparr>requests = [(GET, ''https://h/a'')], sleeps = [1], closed = []\<rparr>)"
    by (simp add: request_with_fallback_def one attempt_def send_def classify_def retryable_def
        sleep_def backoff_def http_resp_def new_net_def)
  then show ?thesis
    using request_with_fallback_total [of "\<lambda>k m u. Inr (http_resp 503 u)" "''https://h/a''" "-2" new_net]
    by simp
qed

lemma attempt_forbidden_get:
  assumes "srv (length (requests n)) GET u = Inr r1"
    and "status_code r1 = 403 \<or> status_code r1 = 405"
  shows "attempt srv u a l n =
    (case srv (Suc (length (requests n))) POST u of
       Inl e \<Rightarrow> (False, l\<lparr>last_exc := Some (RequestException e), cur_r := Some r1\<rparr>,
                 n\<lparr>requests := requests n @ [(GET, u), (POST, u)],
                   sleeps := sleeps n @ [backoff a], closed := closed n @ [r1]\<rparr>)
     | Inr r2 \<Rightarrow>
         if status_code r2 \<ge> 500 \<or> status_code r2 = 429
         then (False, l\<lparr>cur_r := Some r2\<rparr>,
               n\<lparr>requests := requests n @ [(GET, u), (POST, u)],
                 sleeps := sleeps n @ [backoff a], closed := closed n @ [r1]\<rparr>)
         else (True, l\<lparr>cur_r := Some r2\<rparr>,
               n\<lparr>requests := requests n @ [(GET, u), (POST, u)], closed := closed n @ [r1]\<rparr>))"
  using assms
  by (auto simp: attempt_def send_def close_def classify_def retryable_def sleep_def
      split: sum.splits)

lemma attempt_plain_get:
  assumes "srv (length (requests n)) GET u = Inr r2"
    and "status_code r2 \<noteq> 403" "status_code r2 \<noteq> 405"
  shows "attempt srv u a l n =
    (if status_code r2 \<ge> 500 \<or> status_code r2 = 429
     then (False, l\<lparr>cur_r := Some r2\<rparr>,
           n\<lparr>requests := requests n @ [(GET, u)], sleeps := sleeps n @ [backoff a]\<rparr>)
     else (True, l\<lparr>cur_r := Some r2\<rparr>, n\<lparr>requests := requests n @ [(GET, u)]\<rparr>))"
  using assms
  by (auto simp: attempt_def send_def classify_def retryable_def sleep_def)

lemma attempt_trace:
  assumes "attempt srv u a l n = (b, l', n')"
  shows "(case srv (length (requests n)) GET u of
            Inl e \<Rightarrow> requests n' = requests n @ [(GET, u)] \<and> closed n' = closed n
          | Inr r1 \<Rightarrow>
              if status_code r1 = 403 \<or> status_code r1 = 405
              then requests n' = requests n @ [(GET, u), (POST, u)] \<and> closed n' = closed n @ [r1]
              else requests n' = requests n @ [(GET, u)] \<and> closed n' = closed n)"
  using assms
  by (auto simp: attempt_def send_def close_def classify_def sleep_def
      split: sum.splits if_splits)

lemma post_follows_step:
  assumes at: "attempt srv u a l n = (b, l1, n1)"
    and ext: "requests n' = requests n1 @ ext" "closed n' = closed n1 @ cl"
    and later: "post_follows srv u (length (requests n1)) n'"
  shows "post_follows srv u (length (requests n)) n'"
  unfolding post_follows_def
proof (intro allI impI, elim conjE)
  fix j r1
  assume j: "length (requests n) \<le> j" "j < length (requests n')"
    and g: "requests n' ! j = (GET, u)" and s: "srv j GET u = Inr r1"
    and f: "status_code r1 = 403 \<or> status_code r1 = 405"
  note tr = attempt_trace [OF at]
  show "Suc j < length (requests n') \<and> requests n' ! Suc j = (POST, u) \<and> r1 \<in> set (closed n')"
  proof (cases "j < length (requests n1)")
    case False
    then have "length (requests n1) \<le> j" by simp
    then show ?thesis using later [unfolded post_follows_def] j g s f by blast
  next
    case True
    show ?thesis
    proof (cases "j = length (requests n)")
      case True
      then have "requests n1 = requests n @ [(GET, u), (POST, u)]" "closed n1 = closed n @ [r1]"
        using tr s f by auto
      then show ?thesis using True ext by (simp add: nth_append)
    next
      case False
      then have jj: "j = Suc (length (requests n))"
        and rq: "requests n1 = requests n @ [(GET, u), (POST, u)]"
        using tr True j(1) by (auto split: sum.splits if_splits)
      have "requests n' ! j = (POST, u)"
        using jj rq ext by (simp add: nth_append)
      then show ?thesis using g by simp
    qed
  qed
qed

lemma attempts_loop_post_follows:
  "(\<exists>ext. requests (snd (attempts_loop srv u as l n)) = requests n @ ext) \<and>
   (\<exists>cl. closed (snd (attempts_loop srv u as l n)) = closed n @ cl) \<and>
   post_follows srv u (length (requests n)) (snd (attempts_loop srv u as l n))"
proof (induction as arbitrary: l n)
  case Nil
  show ?case by (auto simp: post_follows_def split: option.splits)
next
  case (Cons a as)
  obtain b l1 n1 where at: "attempt srv u a l n = (b, l1, n1)"
    by (cases "attempt srv u a l n") auto
  have grow: "(\<exists>e. requests n1 = requests n @ e) \<and> (\<exists>c. closed n1 = closed n @ c)"
    using attempt_trace [OF at] by (auto split: sum.splits if_splits)
  show ?case
  proof (cases b)
    case True
    then have eq: "snd (attempts_loop srv u (a # as) l n) = n1"
      using at by (simp split: option.splits)
    have "post_follows srv u (length (requests n)) n1"
      by (rule post_follows_step [OF at, of n1 "[]" "[]"]) (auto simp: post_follows_def)
    then show ?thesis using eq grow by simp
  next
    case False
    then have eq: "snd (attempts_loop srv u (a # as) l n) = snd (attempts_loop srv u as l1 n1)"
      using at by simp
    from Cons.IH [of l1 n1] obtain ext cl where
      e: "requests (snd (attempts_loop srv u as l1 n1)) = requests n1 @ ext"
      "closed (snd (attempts_loop srv u as l1 n1)) = closed n1 @ cl"
      and pf: "post_follows srv u (length (requests n1)) (snd (attempts_loop srv u as l1 n1))"
      by blast
    have "post_follows srv u (length (requests n)) (snd (attempts_loop srv u as l1 n1))"
      by (rule post_follows_step [OF at e pf])
    moreover have "\<exists>x. requests (snd (attempts_loop srv u as l1 n1)) = requests n @ x"
      using e(1) grow by auto
    moreover have "\<exists>c. closed (snd (attempts_loop srv u as l1 n1)) = closed n @ c"
      using e(2) grow by auto
    ultimately show ?thesis using eq by simp
  qed
qed

text \<open>
  C8: the POST fallback of \<open>_request_with_fallback\<close>, for every URL, every number of
  attempts and every attempt.
  \<^item> In the requests of a call, every GET that is answered with status 403 or 405 is
    followed at once by a POST to the same URL, and the GET response is closed; the call
    always starts with a GET.
  \<^item> The first attempt of a call, and the loop at any later attempt \<open>a\<close>, on such a
    GET: the POST follows with no sleep in between; a POST that raises is retried like any
    network error; a POST response with status 500 or above, or 429, sleeps
    \<open>backoff a\<close> and goes on to the next attempt; any other POST response is returned.
  \<^item> That is the classification of a GET response: a call whose GET is answered with the
    response \<open>r2\<close> directly takes the same branch, and where one server answers the
    POST with what another answers the GET with, the attempt ends the same way (return or
    retry, the response kept and the sleeps made).
\<close>

theorem request_with_fallback_post_fallback:
  "(\<forall>j r1. length (requests n) \<le> j \<and>
           j < length (requests (snd (request_with_fallback srv u attempts n))) \<and>
           requests (snd (request_with_fallback srv u attempts n)) ! j = (GET, u) \<and>
           srv j GET u = Inr r1 \<and> (status_code r1 = 403 \<or> status_code r1 = 405) \<longrightarrow>
           Suc j < length (requests (snd (request_with_fallback srv u attempts n))) \<and>
           requests (snd (request_with_fallback srv u attempts n)) ! Suc j = (POST, u) \<and>
           r1 \<in> set (closed (snd (request_with_fallback srv u attempts n)))) \<and>
   (\<exists>rest. requests (snd (request_with_fallback srv u attempts n)) = requests n @ (GET, u) # rest) \<and>
   (srv (length (requests n)) GET u = Inr g1 \<and> (status_code g1 = 403 \<or> status_code g1 = 405) \<longrightarrow>
      request_with_fallback srv u attempts n =
        (case srv (Suc (length (requests n))) POST u of
           Inl e \<Rightarrow>
             attempts_loop srv u [2..max 1 attempts]
               \<lparr>last_exc = Some (RequestException e), cur_r = Some g1\<rparr>
               (n\<lparr>requests := requests n @ [(GET, u), (POST, u)], sleeps := sleeps n @ [1],
                  closed := closed n @ [g1]\<rparr>)
         | Inr r2 \<Rightarrow>
             if status_code r2 \<ge> 500 \<or> status_code r2 = 429
             then attempts_loop srv u [2..max 1 attempts] \<lparr>last_exc = None, cur_r = Some r2\<rparr>
                    (n\<lparr>requests := requests n @ [(GET, u), (POST, u)], sleeps := sleeps n @ [1],
                       closed := closed n @ [g1]\<rparr>)
             else (Inr r2, n\<lparr>requests := requests n @ [(GET, u), (POST, u)],
                              closed := closed n @ [g1]\<rparr>))) \<and>
   (srv (length (requests n)) GET u = Inr r2 \<and> status_code r2 \<noteq> 403 \<and> status_code r2 \<noteq> 405 \<longrightarrow>
      request_with_fallback srv u attempts n =
        (if status_code r2 \<ge> 500 \<or> status_code r2 = 429
         then attempts_loop srv u [2..max 1 attempts] \<lparr>last_exc = None, cur_r = Some r2\<rparr>
                (n\<lparr>requests := requests n @ [(GET, u)], sleeps := sleeps n @ [1]\<rparr>)
         else (Inr r2, n\<lparr>requests := requests n @ [(GET, u)]\<rparr>))) \<and>
   (srv (length (requests m)) GET u = Inr g1 \<and> (status_code g1 = 403 \<or> status_code g1 = 405) \<longrightarrow>
      attempts_loop srv u (a # as) l m =
        (case srv (Suc (length (requests m))) POST u of
           Inl e \<Rightarrow>
             attempts_loop srv u as (l\<lparr>last_exc := Some (RequestException e), cur_r := Some g1\<rparr>)
               (m\<lparr>requests := requests m @ [(GET, u), (POST, u)],
                  sleeps := sleeps m @ [backoff a], closed := closed m @ [g1]\<rparr>)
         | Inr r2 \<Rightarrow>
             if status_code r2 \<ge> 500 \<or> status_code r2 = 429
             then attempts_loop srv u as (l\<lparr>cur_r := Some r2\<rparr>)
                    (m\<lparr>requests := requests m @ [(GET, u), (POST, u)],
                       sleeps := sleeps m @ [backoff a], closed := closed m @ [g1]\<rparr>)
             else (Inr r2, m\<lparr>requests := requests m @ [(GET, u), (POST, u)],
                              closed := closed m @ [g1]\<rparr>))) \<and>
   (srv (length (requests m)) GET u = Inr g1 \<and> (status_code g1 = 403 \<or> status_code g1 = 405) \<and>
    srv (Suc (length (requests m))) POST u = Inr r2 \<and>
    srv' (length (requests m)) GET u = Inr r2 \<and> status_code r2 \<noteq> 403 \<and> status_code r2 \<noteq> 405 \<longrightarrow>
      fst (attempt srv u a l m) = fst (attempt srv' u a l m) \<and>
      fst (snd (attempt srv u a l m)) = fst (snd (attempt srv' u a l m)) \<and>
      sleeps (snd (snd (attempt srv u a l m))) = sleeps (snd (snd (attempt srv' u a l m))) \<and>
      fst (request_with_fallback srv u 1 m) = fst (request_with_fallback srv' u 1 m) \<and>
      sleeps (snd (request_with_fallback srv u 1 m)) = sleeps (snd (request_with_fallback srv' u 1 m)))"
proof (intro conjI)
  show "\<forall>j r1. length (requests n) \<le> j \<and>
           j < length (requests (snd (request_with_fallback srv u attempts n))) \<and>
           requests (snd (request_with_fallback srv u attempts n)) ! j = (GET, u) \<and>
           srv j GET u = Inr r1 \<and> (status_code r1 = 403 \<or> status_code r1 = 405) \<longrightarrow>
           Suc j < length (requests (snd (request_with_fallback srv u attempts n))) \<and>
           requests (snd (request_with_fallback srv u attempts n)) ! Suc j = (POST, u) \<and>
           r1 \<in> set (closed (snd (request_with_fallback srv u attempts n)))"
    using attempts_loop_post_follows [of srv u "[1..max 1 attempts]" "\<lparr>last_exc = None, cur_r = None\<rparr>" n]
    unfolding request_with_fallback_def post_follows_def by blast
next
  show "\<exists>rest. requests (snd (request_with_fallback srv u attempts n)) = requests n @ (GET, u) # rest"
    unfolding request_with_fallback_def upto_max_1 by (rule first_attempt_requests)
next
  show "srv (length (requests n)) GET u = Inr g1 \<and> (status_code g1 = 403 \<or> status_code g1 = 405) \<longrightarrow>
      request_with_fallback srv u attempts n =
        (case srv (Suc (length (requests n))) POST u of
           Inl e \<Rightarrow>
             attempts_loop srv u [2..max 1 attempts]
               \<lparr>last_exc = Some (RequestException e), cur_r = Some g1\<rparr>
               (n\<lparr>requests := requests n @ [(GET, u), (POST, u)], sleeps := sleeps n @ [1],
                  closed := closed n @ [g1]\<rparr>)
         | Inr r2 \<Rightarrow>
             if status_code r2 \<ge> 500 \<or> status_code r2 = 429
             then attempts_loop srv u [2..max 1 attempts] \<lparr>last_exc = None, cur_r = Some r2\<rparr>
                    (n\<lparr>requests := requests n @ [(GET, u), (POST, u)], sleeps := sleeps n @ [1],
                       closed := closed n @ [g1]\<rparr>)
             else (Inr r2, n\<lparr>requests := requests n @ [(GET, u), (POST, u)],
                              closed := closed n @ [g1]\<rparr>))"
    unfolding request_with_fallback_def upto_max_1
    by (auto simp: attempt_forbidden_get backoff_vals split: sum.splits)
next
  show "srv (length (requests n)) GET u = Inr r2 \<and> status_code r2 \<noteq> 403 \<and> status_code r2 \<noteq> 405 \<longrightarrow>
      request_with_fallback srv u attempts n =
        (if status_code r2 \<ge> 500 \<or> status_code r2 = 429
         then attempts_loop srv u [2..max 1 attempts] \<lparr>last_exc = None, cur_r = Some r2\<rparr>
                (n\<lparr>requests := requests n @ [(GET, u)], sleeps := sleeps n @ [1]\<rparr>)
         else (Inr r2, n\<lparr>requests := requests n @ [(GET, u)]\<rparr>))"
    unfolding request_with_fallback_def upto_max_1
    by (auto simp: attempt_plain_get backoff_vals)
next
  show "srv (length (requests m)) GET u = Inr g1 \<and> (status_code g1 = 403 \<or> status_code g1 = 405) \<longrightarrow>
      attempts_loop srv u (a # as) l m =
        (case srv (Suc (length (requests m))) POST u of
           Inl e \<Rightarrow>
             attempts_loop srv u as (l\<lparr>last_exc := Some (RequestException e), cur_r := Some g1\<rparr>)
               (m\<lparr>requests := requests m @ [(GET, u), (POST, u)],
                  sleeps := sleeps m @ [backoff a], closed := closed m @ [g1]\<rparr>)
         | Inr r2 \<Rightarrow>
             if status_code r2 \<ge> 500 \<or> status_code r2 = 429
             then attempts_loop srv u as (l\<lparr>cur_r := Some r2\<rparr>)
                    (m\<lparr>requests := requests m @ [(GET, u), (POST, u)],
                       sleeps := sleeps m @ [backoff a], closed := closed m @ [g1]\<rparr>)
             else (Inr r2, m\<lparr>requests := requests m @ [(GET, u), (POST, u)],
                              closed := closed m @ [g1]\<rparr>))"
    by (auto simp: attempt_forbidden_get split: sum.splits)
next
  show "srv (length (requests m)) GET u = Inr g1 \<and> (status_code g1 = 403 \<or> status_code g1 = 405) \<and>
    srv (Suc (length (requests m))) POST u = Inr r2 \<and>
    srv' (length (requests m)) GET u = Inr r2 \<and> status_code r2 \<noteq> 403 \<and> status_code r2 \<noteq> 405 \<longrightarrow>
      fst (attempt srv u a l m) = fst (attempt srv' u a l m) \<and>
      fst (snd (attempt srv u a l m)) = fst (snd (attempt srv' u a l m)) \<and>
      sleeps (snd (snd (attempt srv u a l m))) = sleeps (snd (snd (attempt srv' u a l m))) \<and>
      fst (request_with_fallback srv u 1 m) = fst (request_with_fallback srv' u 1 m) \<and>
      sleeps (snd (request_with_fallback srv u 1 m)) = sleeps (snd (request_with_fallback srv' u 1 m))"
  proof (intro impI, elim conjE)
    assume g: "srv (length (requests m)) GET u = Inr g1"
      and f: "status_code g1 = 403 \<or> status_code g1 = 405"
      and p: "srv (Suc (length (requests m))) POST u = Inr r2"
      and g': "srv' (length (requests m)) GET u = Inr r2"
      and nf: "status_code r2 \<noteq> 403" "status_code r2 \<noteq> 405"
    have one: "[1..max 1 (1::int)] = [1]" by (simp add: upto.simps)
    have a1: "attempt srv u a l m =
        (if status_code r2 \<ge> 500 \<or> status_code r2 = 429
         then (False, l\<lparr>cur_r := Some r2\<rparr>,
               m\<lparr>requests := requests m @ [(GET, u), (POST, u)],
                 sleeps := sleeps m @ [backoff a], closed := closed m @ [g1]\<rparr>)
         else (True, l\<lparr>cur_r := Some r2\<rparr>,
               m\<lparr>requests := requests m @ [(GET, u), (POST, u)], closed := closed m @ [g1]\<rparr>))"
      using attempt_forbidden_get [of srv m u g1 a l, OF g f] p by simp
    have a2: "attempt srv' u a l m =
        (if status_code r2 \<ge> 500 \<or> status_code r2 = 429
         then (False, l\<lparr>cur_r := Some r2\<rparr>,
               m\<lparr>requests := requests m @ [(GET, u)], sleeps := sleeps m @ [backoff a]\<rparr>)
         else (True, l\<lparr>cur_r := Some r2\<rparr>, m\<lparr>requests := requests m @ [(GET, u)]\<rparr>))"
      using attempt_plain_get [of srv' m u r2 a l, OF g' nf] by simp
    have b1: "attempt srv u 1 \<lparr>last_exc = None, cur_r = None\<rparr> m =
        (if status_code r2 \<ge> 500 \<or> status_code r2 = 429
         then (False, \<lparr>last_exc = None, cur_r = Some r2\<rparr>,
               m\<lparr>requests := requests m @ [(GET, u), (POST, u)],
                 sleeps := sleeps m @ [backoff 1], closed := closed m @ [g1]\<rparr>)
         else (True, \<lparr>last_exc = None, cur_r = Some r2\<rparr>,
               m\<lparr>requests := requests m @ [(GET, u), (POST, u)], closed := closed m @ [g1]\<rparr>))"
      using attempt_forbidden_get [of srv m u g1 1 "\<lparr>last_exc = None, cur_r = None\<rparr>", OF g f] p by simp
    have b2: "attempt srv' u 1 \<lparr>last_exc = None, cur_r = None\<rparr> m =
        (if status_code r2 \<ge> 500 \<or> status_code r2 = 429
         then (False, \<lparr>last_exc = None, cur_r = Some r2\<rparr>,
               m\<lparr>requests := requests m @ [(GET, u)], sleeps := sleeps m @ [backoff 1]\<rparr>)
         else (True, \<lparr>last_exc = None, cur_r = Some r2\<rparr>, m\<lparr>requests := requests m @ [(GET, u)]\<rparr>))"
      using attempt_plain_get [of srv' m u r2 1 "\<lparr>last_exc = None, cur_r = None\<rparr>", OF g' nf] by simp
    show "fst (attempt srv u a l m) = fst (attempt srv' u a l m) \<and>
      fst (snd (attempt srv u a l m)) = fst (snd (attempt srv' u a l m)) \<and>
      sleeps (snd (snd (attempt srv u a l m))) = sleeps (snd (snd (attempt srv' u a l m))) \<and>
      fst (request_with_fallback srv u 1 m) = fst (request_with_fallback srv' u 1 m) \<and>
      sleeps (snd (request_with_fallback srv u 1 m)) = sleeps (snd (request_with_fallback srv' u 1 m))"
      by (simp add: a1 a2 request_with_fallback_def one b1 b2)
  qed
qed

theorem request_with_fallback_post_fallback_witness:
  "request_with_fallback (\<lambda>k m u. Inr (http_resp (if m = GET then 403 else 200) u)) ''https://h/a'' 3
     new_net =
     (Inr (http_resp 200 ''https://h/a''),
      \<lparr>requests = [(GET, ''https://h/a''), (POST, ''https://h/a'')], sleeps = [],
       closed = [http_resp 403 ''https://h/a'']\<rparr>) \<and>
   requests (snd (request_with_fallback
       (\<lambda>k m u. Inr (http_resp (if m = GET then 405 else 503) u)) ''https://h/a'' 2 new_net)) =
     [(GET, ''https://h/a''), (POST, ''https://h/a''), (GET, ''https://h/a''), (POST, ''https://h/a'')] \<and>
   request_with_fallback (\<lambda>k m u. Inr (http_resp 200 u)) ''https://h/a'' 3 new_net =
     (Inr (http_resp 200 ''https://h/a''),
      \<lparr>requests = [(GET, ''https://h/a'')], sleeps = [], closed = []\<rparr>)"
proof -
  let ?u = "''https://h/a''"
  let ?A = "\<lambda>(k::nat) m (u::string). Inr (http_resp (if m = GET then 403 else 200) u) :: string + response"
  let ?B = "\<lambda>(k::nat) m (u::string). Inr (http_resp (if m = GET then 405 else 503) u) :: string + response"
  let ?C = "\<lambda>(k::nat) (m::http_method) (u::string). Inr (http_resp 200 u) :: string + response"
  note tA = request_with_fallback_post_fallback [where n = new_net and srv = ?A and u = ?u
      and attempts = 3 and ?g1.0 = "http_resp 403 ?u"]
  note tA3 = tA [THEN conjunct2, THEN conjunct2, THEN conjunct1]
  have a: "request_with_fallback ?A ?u 3 new_net =
     (Inr (http_resp 200 ?u),
      \<lparr>requests = [(GET, ?u), (POST, ?u)], sleeps = [], closed = [http_resp 403 ?u]\<rparr>)"
    using tA3 by (simp add: new_net_def http_resp_def)
  have two: "[2..max 1 (2::int)] = [2]" by (simp add: upto.simps)
  note tB = request_with_fallback_post_fallback [where n = new_net and srv = ?B and u = ?u
      and attempts = 2 and ?g1.0 = "http_resp 405 ?u"
      and m = "\<lparr>requests = [(GET, ?u), (POST, ?u)], sleeps = [1], closed = [http_resp 405 ?u]\<rparr>"
      and a = 2 and as = "[]" and l = "\<lparr>last_exc = None, cur_r = Some (http_resp 503 ?u)\<rparr>"]
  note tB3 = tB [THEN conjunct2, THEN conjunct2, THEN conjunct1]
  note tB5 = tB [THEN conjunct2, THEN conjunct2, THEN conjunct2, THEN conjunct2, THEN conjunct1]
  have b: "requests (snd (request_with_fallback ?B ?u 2 new_net)) =
     [(GET, ?u), (POST, ?u), (GET, ?u), (POST, ?u)]"
    using tB3 tB5 by (simp add: new_net_def http_resp_def two)
  note tC = request_with_fallback_post_fallback [where n = new_net and srv = ?C and u = ?u
      and attempts = 3 and ?r2.0 = "http_resp 200 ?u"]
  note tC4 = tC [THEN conjunct2, THEN conjunct2, THEN conjunct2, THEN conjunct1]
  have c: "request_with_fallback ?C ?u 3 new_net =
     (Inr (http_resp 200 ?u), \<lparr>requests = [(GET, ?u)], sleeps = [], closed = []\<rparr>)"
    using tC4 by (simp add: new_net_def http_resp_def)
  from a b c show ?thesis by simp
qed

section \<open>Properties of \<open>_resolve_media_response\<close>\<close>

lemmas rwf_eval = request_with_fallback_def upto_1_3 attempt_def send_def classify_def
  retryable_def sleep_def close_def backoff_def

lemma attempt_requests_to_url:
  assumes "attempt srv u a l n = (b, l', n')"
  shows "\<exists>ext. requests n' = requests n @ ext \<and> set ext \<subseteq> {(GET, u), (POST, u)}"
  using assms
  by (auto simp: attempt_def send_def classify_def sleep_def close_def
      split: sum.splits if_splits)

lemma attempts_loop_requests_to_url:
  "\<exists>ext. requests (snd (attempts_loop srv u as l n)) = requests n @ ext \<and>
         set ext \<subseteq> {(GET, u), (POST, u)}"
proof (induction as arbitrary: l n)
  case Nil
  show ?case by (simp split: option.splits)
next
  case (Cons a as)
  obtain b l' n' where at: "attempt srv u a l n = (b, l', n')"
    by (cases "attempt srv u a l n") auto
  from attempt_requests_to_url [OF at] obtain ext where
    rq: "requests n' = requests n @ ext" "set ext \<subseteq> {(GET, u), (POST, u)}"
    by blast
  show ?case
  proof (cases b)
    case True
    then show ?thesis using at rq by (simp split: option.splits)
  next
    case False
    from Cons.IH [of l' n'] obtain ext' where
      "requests (snd (attempts_loop srv u as l' n')) = requests n' @ ext'"
      "set ext' \<subseteq> {(GET, u), (POST, u)}" by blast
    then have "requests (snd (attempts_loop srv u as l' n')) = requests n @ (ext @ ext') \<and>
               set (ext @ ext') \<subseteq> {(GET, u), (POST, u)}"
      using rq by simp
    then have "\<exists>e. requests (snd (attempts_loop srv u as l' n')) = requests n @ e \<and>
               set e \<subseteq> {(GET, u), (POST, u)}"
      by blast
    then show ?thesis using at False by simp
  qed
qed

lemma request_with_fallback_requests_to_url:
  "\<exists>ext. requests (snd (request_with_fallback srv u k n)) = requests n @ ext \<and>
         set ext \<subseteq> {(GET, u), (POST, u)}"
  unfolding request_with_fallback_def by (rule attempts_loop_requests_to_url)

lemma request_with_fallback_first_request:
  "\<exists>rest. requests (snd (request_with_fallback srv u k n)) = requests n @ (GET, u) # rest"
  unfolding request_with_fallback_def upto_max_1 by (rule first_attempt_requests)

lemma first_url_key_found:
  assumes "i < length ks" "map_of kv (ks ! i) = Some v" "truthy v"
    and "\<forall>j<i. case map_of kv (ks ! j) of None \<Rightarrow> True | Some w \<Rightarrow> \<not> truthy w"
  shows "first_url_key (JDict kv) ks = Some (py_str v)"
  using assms
proof (induction ks arbitrary: i)
  case Nil
  then show ?case by simp
next
  case (Cons k ks)
  show ?case
  proof (cases i)
    case 0
    then show ?thesis using Cons.prems by simp
  next
    case (Suc i')
    have k0: "case map_of kv k of None \<Rightarrow> True | Some w \<Rightarrow> \<not> truthy w"
      using Cons.prems(4) Suc by (auto dest: spec [of _ 0])
    have rest: "\<forall>j<i'. case map_of kv (ks ! j) of None \<Rightarrow> True | Some w \<Rightarrow> \<not> truthy w"
    proof (intro allI impI)
      fix j assume "j < i'"
      then have "Suc j < i" using Suc by simp
      from Cons.prems(4) [rule_format, OF this] show
        "case map_of kv (ks ! j) of None \<Rightarrow> True | Some w \<Rightarrow> \<not> truthy w" by simp
    qed
    have "first_url_key (JDict kv) ks = Some (py_str v)"
      using Cons.IH [of i'] Cons.prems Suc rest by simp
    then show ?thesis using k0 by (simp split: option.splits)
  qed
qed

lemma find_new_url_json:
  assumes "json_loads env content = Some (JDict kv)" "i < length url_keys"
    "map_of kv (url_keys ! i) = Some (JString s)" "s \<noteq> []"
    "\<forall>j<i. case map_of kv (url_keys ! j) of None \<Rightarrow> True | Some w \<Rightarrow> \<not> truthy w"
  shows "find_new_url env content = Some s"
proof -
  have "first_url_key (JDict kv) url_keys = Some (py_str (JString s))"
    by (rule first_url_key_found [OF assms(2) assms(3) _ assms(5)]) (simp add: assms(4))
  then show ?thesis using assms(1,4) by (simp add: find_new_url_def)
qed

lemma resolve_one_hop:
  "\<exists>u2 ext. requests (snd (resolve_media_response env u n)) = requests n @ ext \<and>
     set ext \<subseteq> {(GET, u), (POST, u), (GET, u2), (POST, u2)}"
proof -
  obtain res n1 where f: "request_with_fallback (server env) u 3 n = (res, n1)"
    by (cases "request_with_fallback (server env) u 3 n") auto
  from request_with_fallback_requests_to_url [of "server env" u 3 n] f obtain ext where
    e1: "requests n1 = requests n @ ext" "set ext \<subseteq> {(GET, u), (POST, u)}" by auto
  have direct: "\<exists>u2 ext. requests n1 = requests n @ ext \<and>
     set ext \<subseteq> {(GET, u), (POST, u), (GET, u2), (POST, u2)}"
    using e1 by blast
  show ?thesis
  proof (cases res)
    case (Inl e)
    then show ?thesis using f direct by (simp add: resolve_media_response_def)
  next
    case (Inr resp)
    obtain content resp' where rd: "read_for_parsing resp = (content, resp')"
      by (cases "read_for_parsing resp") auto
    show ?thesis
    proof (cases "(status_code resp \<ge> 400 \<and> status_code resp \<noteq> 403 \<and> status_code resp \<noteq> 405) \<or>
        looks_like_media_contenttype (headers_get (headers resp) ''Content-Type'' []) \<or>
        find_new_url env content = None \<or> find_new_url env content = Some []")
      case True
      then have "snd (resolve_media_response env u n) = n1"
        using f Inr rd by (auto simp: resolve_media_response_def)
      then show ?thesis using direct by simp
    next
      case False
      then obtain v where v: "find_new_url env content = Some v" "v \<noteq> []" by auto
      let ?second = "request_with_fallback (server env) v 3 (close resp' n1)"
      have "snd (resolve_media_response env u n) = snd ?second"
        using f Inr rd False v by (auto simp: resolve_media_response_def split: prod.splits sum.splits)
      moreover from request_with_fallback_requests_to_url [of "server env" v 3 "close resp' n1"]
      obtain ext2 where "requests (snd ?second) = requests n1 @ ext2"
        "set ext2 \<subseteq> {(GET, v), (POST, v)}" by (auto simp: close_def)
      ultimately have "requests (snd (resolve_media_response env u n)) = requests n @ (ext @ ext2) \<and>
        set (ext @ ext2) \<subseteq> {(GET, u), (POST, u), (GET, v), (POST, v)}"
        using e1 by auto
      then show ?thesis by blast
    qed
  qed
qed

text \<open>
  C2, as amended. With the first response \<open>resp\<close> of the call: a status of 400 or more
  other than 403 and 405 returns it unchanged, with no further request. A status below
  400 (or 403, 405) with a non-media content type, whose body parses as a JSON dictionary
  in which the key at priority \<open>i\<close> holds a non-empty string \<open>s\<close> and no earlier key
  holds a truthy value, leads to a second call of \<open>_request_with_fallback\<close> for
  \<open>s\<close>, whose first request is a GET of \<open>s\<close>, and the final URL returned is
  \<open>s\<close>. In every case all requests go to the given URL or to one other URL.
\<close>

theorem resolve_indirection:
  assumes "request_with_fallback (server env) u 3 n = (Inr resp, n1)"
  shows
    "(status_code resp \<ge> 400 \<and> status_code resp \<noteq> 403 \<and> status_code resp \<noteq> 405 \<longrightarrow>
        resolve_media_response env u n = (Inr (resp, url resp), n1)) \<and>
     ((status_code resp < 400 \<or> status_code resp = 403 \<or> status_code resp = 405) \<and>
      \<not> looks_like_media_contenttype (headers_get (headers resp) ''Content-Type'' []) \<and>
      json_loads env (fst (read_for_parsing resp)) = Some (JDict kv) \<and>
      i < length url_keys \<and> map_of kv (url_keys ! i) = Some (JString s) \<and> s \<noteq> [] \<and>
      (\<forall>j<i. case map_of kv (url_keys ! j) of None \<Rightarrow> True | Some w \<Rightarrow> \<not> truthy w) \<longrightarrow>
        resolve_media_response env u n =
          (case request_with_fallback (server env) s 3 (close (snd (read_for_parsing resp)) n1) of
             (Inl e, n2) \<Rightarrow> (Inl e, n2)
           | (Inr r2, n2) \<Rightarrow> (Inr (r2, s), n2)) \<and>
        (\<exists>rest. requests (snd (resolve_media_response env u n)) = requests n1 @ (GET, s) # rest)) \<and>
     (\<exists>u2 ext. requests (snd (resolve_media_response env u n)) = requests n @ ext \<and>
        set ext \<subseteq> {(GET, u), (POST, u), (GET, u2), (POST, u2)})"
proof (intro conjI impI)
  assume "status_code resp \<ge> 400 \<and> status_code resp \<noteq> 403 \<and> status_code resp \<noteq> 405"
  then show "resolve_media_response env u n = (Inr (resp, url resp), n1)"
    using assms by (simp add: resolve_media_response_def)
next
  assume h: "(status_code resp < 400 \<or> status_code resp = 403 \<or> status_code resp = 405) \<and>
      \<not> looks_like_media_contenttype (headers_get (headers resp) ''Content-Type'' []) \<and>
      json_loads env (fst (read_for_parsing resp)) = Some (JDict kv) \<and>
      i < length url_keys \<and> map_of kv (url_keys ! i) = Some (JString s) \<and> s \<noteq> [] \<and>
      (\<forall>j<i. case map_of kv (url_keys ! j) of None \<Rightarrow> True | Some w \<Rightarrow> \<not> truthy w)"
  obtain content resp' where rd: "read_for_parsing resp = (content, resp')"
    by (cases "read_for_parsing resp") auto
  have nu: "find_new_url env content = Some s"
    using h rd by (intro find_new_url_json [of env content kv i s]) simp_all
  have st: "\<not> (status_code resp \<ge> 400 \<and> status_code resp \<noteq> 403 \<and> status_code resp \<noteq> 405)"
    using h by auto
  show eq: "resolve_media_response env u n =
          (case request_with_fallback (server env) s 3 (close (snd (read_for_parsing resp)) n1) of
             (Inl e, n2) \<Rightarrow> (Inl e, n2)
           | (Inr r2, n2) \<Rightarrow> (Inr (r2, s), n2))"
    using assms h rd nu by (auto simp: resolve_media_response_def split: prod.splits sum.splits)
  from request_with_fallback_first_request [of "server env" s 3 "close resp' n1"]
  obtain rest where
    "requests (snd (request_with_fallback (server env) s 3 (close resp' n1))) = requests n1 @ (GET, s) # rest"
    by (auto simp: close_def)
  then show "\<exists>rest. requests (snd (resolve_media_response env u n)) = requests n1 @ (GET, s) # rest"
    unfolding eq using rd by (auto split: prod.splits sum.splits)
next
  show "\<exists>u2 ext. requests (snd (resolve_media_response env u n)) = requests n @ ext \<and>
        set ext \<subseteq> {(GET, u), (POST, u), (GET, u2), (POST, u2)}"
    by (rule resolve_one_hop)
qed


theorem resolve_indirection_witness:
  "resolve_media_response wrapped_url_env ''https://h/a'' new_net =
     (Inr ((http_resp 200 ''https://s3.amazonaws.com/b/x.mp4'')
             \<lparr>headers := [(''Content-Type'', ''video/mp4'')], body := [''data'']\<rparr>,
           ''https://s3.amazonaws.com/b/x.mp4''),
      \<lparr>requests = [(GET, ''https://h/a''), (GET, ''https://s3.amazonaws.com/b/x.mp4'')],
       sleeps = [],
       closed = [(json_resp ''https://h/a'' wrapped_url_body)\<lparr>body := [], consumed := True\<rparr>]\<rparr>) \<and>
   resolve_media_response (ex_env (\<lambda>k m u. Inr (http_resp 404 u))) ''https://h/a'' new_net =
     (Inr (http_resp 404 ''https://h/a'', ''https://h/a''),
      \<lparr>requests = [(GET, ''https://h/a'')], sleeps = [], closed = []\<rparr>)"
proof -
  let ?u = "''https://h/a''"
  let ?s = "''https://s3.amazonaws.com/b/x.mp4''"
  let ?n1 = "\<lparr>requests = [(GET, ?u)], sleeps = [], closed = []\<rparr>"
  have f1: "request_with_fallback (server wrapped_url_env) ?u 3 new_net =
      (Inr (json_resp ?u wrapped_url_body), ?n1)"
    by (simp add: rwf_eval wrapped_url_env_def ex_env_def json_resp_def new_net_def)
  have rd: "read_for_parsing (json_resp ?u wrapped_url_body) =
      (wrapped_url_body, (json_resp ?u wrapped_url_body)\<lparr>body := [], consumed := True\<rparr>)"
    by (simp add: read_for_parsing_def iter_content_def json_resp_def wrapped_url_body_def)
  have f2: "request_with_fallback (server wrapped_url_env) ?s 3
        (close ((json_resp ?u wrapped_url_body)\<lparr>body := [], consumed := True\<rparr>) ?n1) =
      (Inr ((http_resp 200 ?s)\<lparr>headers := [(''Content-Type'', ''video/mp4'')], body := [''data'']\<rparr>),
       \<lparr>requests = [(GET, ?u), (GET, ?s)], sleeps = [],
        closed = [(json_resp ?u wrapped_url_body)\<lparr>body := [], consumed := True\<rparr>]\<rparr>)"
    by (simp add: rwf_eval wrapped_url_env_def ex_env_def http_resp_def)
  have ct: "\<not> looks_like_media_contenttype
      (headers_get (headers (json_resp ?u wrapped_url_body)) ''Content-Type'' [])"
    by (simp add: looks_like_media_contenttype_def headers_get_def json_resp_def py_lower_def
        lower_char_def startswith_def)
  have sc: "status_code (json_resp ?u wrapped_url_body) = 200"
    by (simp add: json_resp_def)
  have js: "json_loads wrapped_url_env wrapped_url_body = Some (JDict [(''url'', JString ?s)])"
    by (simp add: wrapped_url_env_def ex_env_def)
  have a: "resolve_media_response wrapped_url_env ?u new_net =
     (Inr ((http_resp 200 ?s)\<lparr>headers := [(''Content-Type'', ''video/mp4'')], body := [''data'']\<rparr>, ?s),
      \<lparr>requests = [(GET, ?u), (GET, ?s)], sleeps = [],
       closed = [(json_resp ?u wrapped_url_body)\<lparr>body := [], consumed := True\<rparr>]\<rparr>)"
    using resolve_indirection [OF f1, of "[(''url'', JString ?s)]" 0 ?s] ct js sc
    by (simp add: rd f2 url_keys_def)
  have f3: "request_with_fallback (server (ex_env (\<lambda>k m u. Inr (http_resp 404 u)))) ?u 3 new_net =
      (Inr (http_resp 404 ?u), ?n1)"
    by (simp add: rwf_eval ex_env_def http_resp_def new_net_def)
  have b: "resolve_media_response (ex_env (\<lambda>k m u. Inr (http_resp 404 u))) ?u new_net =
     (Inr (http_resp 404 ?u, ?u), ?n1)"
    using resolve_indirection [OF f3] by (simp add: http_resp_def)
  from a b show ?thesis by simp
qed

text \<open>
  C2 as stated fails where the first key present holds the empty string: the body
  \<open>{"url": ""}\<close> has the key \<open>url\<close> with a string value, yet no second request is
  issued and the final URL is the original one.
\<close>

theorem resolve_empty_url_counterexample:
  "request_with_fallback (server empty_url_env) ''https://h/a'' 3 new_net =
     (Inr (json_resp ''https://h/a'' empty_url_body),
      \<lparr>requests = [(GET, ''https://h/a'')], sleeps = [], closed = []\<rparr>) \<and>
   json_loads empty_url_env (fst (read_for_parsing (json_resp ''https://h/a'' empty_url_body))) =
     Some (JDict [(''url'', JString [])]) \<and>
   resolve_media_response empty_url_env ''https://h/a'' new_net =
     (Inr ((json_resp ''https://h/a'' empty_url_body)\<lparr>body := [], consumed := True\<rparr>,
           ''https://h/a''),
      \<lparr>requests = [(GET, ''https://h/a'')], sleeps = [], closed = []\<rparr>)"
proof -
  let ?u = "''https://h/a''"
  have f1: "request_with_fallback (server empty_url_env) ?u 3 new_net =
      (Inr (json_resp ?u empty_url_body), \<lparr>requests = [(GET, ?u)], sleeps = [], closed = []\<rparr>)"
    by (simp add: rwf_eval empty_url_env_def ex_env_def json_resp_def new_net_def)
  have rd: "read_for_parsing (json_resp ?u empty_url_body) =
      (empty_url_body, (json_resp ?u empty_url_body)\<lparr>body := [], consumed := True\<rparr>)"
    by (simp add: read_for_parsing_def iter_content_def json_resp_def empty_url_body_def)
  have ct: "\<not> looks_like_media_contenttype
      (headers_get (headers (json_resp ?u empty_url_body)) ''Content-Type'' [])"
    by (simp add: looks_like_media_contenttype_def headers_get_def json_resp_def py_lower_def
        lower_char_def startswith_def)
  have nu: "find_new_url empty_url_env empty_url_body = None"
    by (simp add: find_new_url_def empty_url_env_def ex_env_def url_keys_def)
  have "resolve_media_response empty_url_env ?u new_net =
     (Inr ((json_resp ?u empty_url_body)\<lparr>body := [], consumed := True\<rparr>, ?u),
      \<lparr>requests = [(GET, ?u)], sleeps = [], closed = []\<rparr>)"
    using ct by (simp add: resolve_media_response_def f1 rd nu) (simp add: json_resp_def)
  then show ?thesis using f1 rd by (simp add: empty_url_env_def ex_env_def)
qed

section \<open>Properties of the extension choice\<close>

text \<open>
  C5: the extension chain at a response of type \<open>application/octet-stream\<close> with no
  \<open>Content-Disposition\<close>, for an image item (fallback \<open>.jpg\<close>) whose final URL ends
  in \<open>file.heic?sig=abc\<close>. The URL alone yields \<open>.heic\<close>, but the header step already
  returns the fallback, which is neither empty nor \<open>.bin\<close>, so the URL is never
  consulted and the file gets \<open>.jpg\<close>. A type in the table wins regardless of the URL.
\<close>

theorem choose_ext_skips_url:
  "ext_from_url ''https://cdn.example/d/file.heic?sig=abc'' = ''.heic'' \<and>
   guess_ext_from_headers
     (media_resp ''https://cdn.example/d/file.heic?sig=abc'' ''application/octet-stream'' [''data''])
     ''.jpg'' = ''.jpg'' \<and>
   choose_ext
     (media_resp ''https://cdn.example/d/file.heic?sig=abc'' ''application/octet-stream'' [''data''])
     ''https://cdn.example/d/file.heic?sig=abc'' ''.jpg'' = ''.jpg'' \<and>
   choose_ext
     (media_resp ''https://cdn.example/d/file.heic?sig=abc'' ''image/png'' [''data''])
     ''https://cdn.example/d/file.heic?sig=abc'' ''.jpg'' = ''.png''"
  by code_simp

section \<open>Properties of the transcoder\<close>

lemma rfind_append_dot:
  assumes "CHR ''.'' \<notin> set t"
  shows "rfind (s @ CHR ''.'' # t) (CHR ''.'') = int (length s)"
proof -
  have "takeWhile (\<lambda>x. x \<noteq> CHR ''.'') (rev t @ CHR ''.'' # rev s) =
        rev t @ takeWhile (\<lambda>x. x \<noteq> CHR ''.'') (CHR ''.'' # rev s)"
    using assms by (intro takeWhile_append2) auto
  then show ?thesis by (simp add: rfind_def)
qed

lemma rfind_lt_length: "rfind s c < int (length s)"
  by (simp add: rfind_def)

lemma takeWhile_shorter:
  assumes "c \<in> set xs"
  shows "length (takeWhile (\<lambda>x. x \<noteq> c) xs) < length xs"
proof -
  have "dropWhile (\<lambda>x. x \<noteq> c) xs \<noteq> []"
    using assms by (auto simp: dropWhile_eq_Nil_conv)
  moreover have "length (takeWhile (\<lambda>x. x \<noteq> c) xs) + length (dropWhile (\<lambda>x. x \<noteq> c) xs) = length xs"
    by (metis length_append takeWhile_dropWhile_id)
  ultimately show ?thesis by (cases "dropWhile (\<lambda>x. x \<noteq> c) xs") auto
qed

lemma rfind_nth:
  assumes "0 \<le> rfind s c"
  shows "s ! nat (rfind s c) = c"
proof -
  from assms have mem: "c \<in> set s" by (auto simp: rfind_def split: if_splits)
  let ?t = "takeWhile (\<lambda>x. x \<noteq> c) (rev s)"
  have lt: "length ?t < length s"
    using takeWhile_shorter [of c "rev s"] mem by simp
  have "rev s ! length ?t = c"
    using lt nth_length_takeWhile [of "\<lambda>x. x \<noteq> c" "rev s"] by simp
  then have "s ! (length s - Suc (length ?t)) = c"
    using lt by (simp add: rev_nth)
  moreover have "nat (rfind s c) = length s - Suc (length ?t)"
    using mem lt by (simp add: rfind_def)
  ultimately show ?thesis by simp
qed

lemma name_split:
  "path_name p = path_stem p @ path_suffix p"
  by (simp add: path_stem_def path_suffix_def Let_def)

lemma suffix_starts_with_dot:
  "path_suffix p \<noteq> [] \<Longrightarrow> hd (path_suffix p) = CHR ''.''"
  using rfind_nth [of "path_name p" "CHR ''.''"] rfind_lt_length [of "path_name p" "CHR ''.''"]
  by (auto simp: path_suffix_def Let_def hd_drop_conv_nth split: if_splits)

lemma stem_nonempty: "path_name p \<noteq> [] \<Longrightarrow> path_stem p \<noteq> []"
  by (auto simp: path_stem_def Let_def)

lemma path_rebuild: "path_name p \<noteq> [] \<Longrightarrow> path_parent p @ [path_name p] = p"
  by (auto simp: path_name_def path_parent_def split: if_splits)

lemma with_suffix_mp4:
  assumes "path_name src \<noteq> []"
  shows "with_suffix src ''.mp4'' = Inr (path_parent src @ [path_stem src @ ''.mp4''])"
proof -
  have len: "length (path_name src) = length (path_stem src) + length (path_suffix src)"
    by (metis length_append name_split)
  have "take (length (path_stem src)) (path_name src) = path_stem src"
    by (subst name_split) simp
  then have "take (length (path_name src) - length (path_suffix src)) (path_name src) = path_stem src"
    using len by simp
  moreover have "path_suffix src = [] \<Longrightarrow> path_name src = path_stem src"
    using name_split [of src] by simp
  ultimately show ?thesis using assms
    by (auto simp: with_suffix_def Let_def startswith_def)
qed

lemma stem_of_final:
  assumes "s \<noteq> []"
  shows "path_stem (d @ [s @ ''.mp4'']) = s"
proof -
  have "rfind (s @ CHR ''.'' # ''mp4'') (CHR ''.'') = int (length s)"
    by (rule rfind_append_dot) simp
  then show ?thesis using assms by (simp add: path_stem_def path_name_def Let_def)
qed

lemma temp_of_final:
  assumes "path_name src \<noteq> []"
  shows "temp_path_of (path_parent src @ [path_stem src @ ''.mp4'']) =
         path_parent src @ [path_stem src @ ''_tmpconv.mp4'']"
  using stem_of_final [OF stem_nonempty [OF assms]]
  by (simp add: temp_path_of_def path_parent_def)

lemma temp_distinct:
  assumes "path_name src \<noteq> []"
  shows "path_parent src @ [path_stem src @ ''_tmpconv.mp4''] \<noteq> src"
    and "path_parent src @ [path_stem src @ ''_tmpconv.mp4''] \<noteq>
         path_parent src @ [path_stem src @ ''.mp4'']"
proof -
  show "path_parent src @ [path_stem src @ ''_tmpconv.mp4''] \<noteq> src"
  proof
    assume "path_parent src @ [path_stem src @ ''_tmpconv.mp4''] = src"
    then have "path_parent src @ [path_stem src @ ''_tmpconv.mp4''] = path_parent src @ [path_name src]"
      using path_rebuild [OF assms] by simp
    then have e: "path_stem src @ ''_tmpconv.mp4'' = path_stem src @ path_suffix src"
      using name_split [of src] by simp
    then have "path_suffix src = ''_tmpconv.mp4''" by simp
    then show False using suffix_starts_with_dot [of src] by simp
  qed
  show "path_parent src @ [path_stem src @ ''_tmpconv.mp4''] \<noteq>
         path_parent src @ [path_stem src @ ''.mp4'']" by simp
qed

lemma unlink_if_exists_files:
  "files (unlink_if_exists env p st) q =
     (if q = p \<and> \<not> denied env (Unlink p) then None else files st q)"
  by (auto simp: unlink_if_exists_def unlink_def path_exists_def)

lemma convert_files:
  "q \<noteq> dst \<Longrightarrow> files (snd (convert_to_h264_mp4 env src dst st)) q = files st q"
  by (auto simp: convert_to_h264_mp4_def Let_def split: prod.splits option.splits)

lemma convert_unavailable:
  "\<not> path_found (ffmpeg_path env) \<Longrightarrow> convert_to_h264_mp4 env src dst st = (False, st)"
  by (simp add: convert_to_h264_mp4_def)

lemma swap_frame:
  assumes "swap_into_place env src temp final st = (b, st')" "q \<noteq> src" "q \<noteq> temp" "q \<noteq> final"
  shows "files st' q = files st q"
  using assms
  by (auto simp: swap_into_place_def unlink_def replace_file_def path_exists_def
      split: if_splits prod.splits option.splits)

lemma swap_success:
  assumes "swap_into_place env src temp final st = (True, st')" "temp \<noteq> src" "temp \<noteq> final"
  shows "files st' temp = None \<and> files st' final = files st temp \<and> files st temp \<noteq> None \<and>
         (src \<noteq> final \<longrightarrow> files st' src = None)"
  using assms
  by (auto simp: swap_into_place_def unlink_def replace_file_def path_exists_def
      split: if_splits prod.splits option.splits)

lemma swap_failure:
  assumes "swap_into_place env src temp final st = (False, st')" "temp \<noteq> src" "src \<noteq> final"
  shows "files st' src = files st src"
  using assms
  by (auto simp: swap_into_place_def unlink_def replace_file_def path_exists_def
      split: if_splits prod.splits option.splits)

lemma log_msg_files: "files (log_msg l st) = files st"
  by (simp add: log_msg_def)

text \<open>
  What holds of \<open>_ensure_h264_mp4\<close> for every source path with a name, \<open>final\<close>
  being the source with the suffix \<open>.mp4\<close> and \<open>temp\<close> its sibling
  \<open><stem>_tmpconv.mp4\<close>:
  \<^item> the temporary path differs from the source and from the final path, the converter
    writes to it only, and no other path than these three changes;
  \<^item> on success the temporary file is gone and the final path holds the converter's
    output; a source other than the final path is gone as well;
  \<^item> a source other than the final path changes only when the run succeeds;
  \<^item> without the tools nothing changes; when the conversion fails, the result is
    \<open>None\<close>, the source and the final path are as before, and the temporary file is
    gone unless the operating system refuses to delete it.
\<close>

lemma ensure_h264_mp4_safe:
  assumes name: "path_name src \<noteq> []"
    and res: "ensure_h264_mp4 env src st = (result, st')"
  defines "final \<equiv> path_parent src @ [path_stem src @ ''.mp4'']"
    and "temp \<equiv> path_parent src @ [path_stem src @ ''_tmpconv.mp4'']"
  defines "conv \<equiv> convert_to_h264_mp4 env src temp (unlink_if_exists env temp st)"
  shows "temp \<noteq> src \<and> temp \<noteq> final \<and>
         with_suffix src ''.mp4'' = Inr final \<and> temp_path_of final = temp \<and>
         (result = Inr (Some final) \<or> result = Inr None) \<and>
         (\<forall>p. p \<noteq> temp \<and> p \<noteq> final \<and> p \<noteq> src \<longrightarrow> files st' p = files st p) \<and>
         (result = Inr (Some final) \<longrightarrow>
            files st' temp = None \<and> files st' final \<noteq> None \<and>
            files st' final = files (snd conv) temp \<and>
            (src \<noteq> final \<longrightarrow> files st' src = None)) \<and>
         (src \<noteq> final \<and> files st' src \<noteq> files st src \<longrightarrow> result = Inr (Some final)) \<and>
         (\<not> has_ffmpeg env \<longrightarrow> result = Inr None \<and> st' = st) \<and>
         (has_ffmpeg env \<and> \<not> fst conv \<longrightarrow>
            result = Inr None \<and> files st' src = files st src \<and>
            files st' final = files st final \<and>
            (\<not> denied env (Unlink temp) \<longrightarrow> files st' temp = None))"
proof -
  have ts: "temp \<noteq> src" and tf: "temp \<noteq> final"
    unfolding temp_def final_def using temp_distinct [OF name] by auto
  have ws: "with_suffix src ''.mp4'' = Inr final"
    unfolding final_def by (rule with_suffix_mp4 [OF name])
  have tp: "temp_path_of final = temp"
    unfolding final_def temp_def by (rule temp_of_final [OF name])
  let ?st1 = "unlink_if_exists env temp st"
  obtain okay st2 where cv: "conv = (okay, st2)" by (cases conv) auto
  have st2_frame: "\<And>q. q \<noteq> temp \<Longrightarrow> files st2 q = files st q"
    using convert_files [of _ temp env src ?st1] cv
    by (simp add: conv_def unlink_if_exists_files)
  show ?thesis
  proof (cases "has_ffmpeg env")
    case False
    then have "result = Inr None" "st' = st"
      using res by (simp_all add: ensure_h264_mp4_def)
    then show ?thesis using ts tf ws tp False by simp
  next
    case True
    show ?thesis
    proof (cases okay)
      case False
      then have r: "result = Inr None" "st' = unlink_if_exists env temp st2"
        using res True ws tp cv by (simp_all add: ensure_h264_mp4_def conv_def)
      have "\<And>q. q \<noteq> temp \<Longrightarrow> files st' q = files st q"
        using r st2_frame by (simp add: unlink_if_exists_files)
      moreover have "\<not> denied env (Unlink temp) \<Longrightarrow> files st' temp = None"
        using r by (simp add: unlink_if_exists_files)
      ultimately show ?thesis using ts tf ws tp True r(1) False cv by auto
    next
      case okay: True
      obtain b st3 where sw: "swap_into_place env src temp final st2 = (b, st3)"
        by (cases "swap_into_place env src temp final st2") auto
      show ?thesis
      proof (cases b)
        case True
        then have r: "result = Inr (Some final)" "st' = st3"
          using res \<open>has_ffmpeg env\<close> ws tp cv okay sw by (simp_all add: ensure_h264_mp4_def conv_def)
        have sw': "swap_into_place env src temp final st2 = (True, st3)"
          using sw True by simp
        note ss = swap_success [OF sw' ts tf]
        have "\<And>q. q \<noteq> temp \<Longrightarrow> q \<noteq> final \<Longrightarrow> q \<noteq> src \<Longrightarrow> files st' q = files st q"
          using swap_frame [OF sw] st2_frame r by simp
        then show ?thesis using ts tf ws tp \<open>has_ffmpeg env\<close> r ss cv okay by auto
      next
        case False
        then have r: "result = Inr None" "st' = log_msg LogWarnMove st3"
          using res \<open>has_ffmpeg env\<close> ws tp cv okay sw by (simp_all add: ensure_h264_mp4_def conv_def)
        have sw': "swap_into_place env src temp final st2 = (False, st3)"
          using sw False by simp
        have fr: "\<And>q. q \<noteq> temp \<Longrightarrow> q \<noteq> final \<Longrightarrow> q \<noteq> src \<Longrightarrow> files st' q = files st q"
          using swap_frame [OF sw] st2_frame r by (simp add: log_msg_files)
        have keep: "src \<noteq> final \<Longrightarrow> files st' src = files st src"
          using swap_failure [OF sw' ts] st2_frame ts r by (simp add: log_msg_files)
        show ?thesis using fr keep ts tf ws tp \<open>has_ffmpeg env\<close> r cv okay by auto
      qed
    qed
  qed
qed

lemma a_mov_parts: "path_name [''v'', ''a.mov''] \<noteq> [] \<and> path_parent [''v'', ''a.mov''] = [''v''] \<and>
   path_stem [''v'', ''a.mov''] = ''a''"
  by code_simp

lemma has_ffmpeg_examples: "has_ffmpeg broken_tools_env \<and> has_ffmpeg tools_env \<and> \<not> has_ffmpeg (ex_env srv)"
  by (simp add: has_ffmpeg_def path_found_def broken_tools_env_def tools_env_def ex_env_def)

lemma tools_run_result:
  "fst (ensure_h264_mp4 tools_env [''v'', ''a.mov''] (one_file [''v'', ''a.mov''] ''raw'')) =
     Inr (Some [''v'', ''a.mp4''])"
  by code_simp

lemma broken_unlink_allowed: "\<not> denied broken_tools_env (Unlink [''v'', ''a_tmpconv.mp4''])"
  by (simp add: broken_tools_env_def tools_env_def ex_env_def)

lemma broken_convert_fails:
  "fst (convert_to_h264_mp4 broken_tools_env [''v'', ''a.mov''] [''v'', ''a_tmpconv.mp4'']
      (unlink_if_exists broken_tools_env [''v'', ''a_tmpconv.mp4''] (one_file [''v'', ''a.mov''] ''raw''))) = False"
  by code_simp


lemma pick7: "A \<and> B \<and> C \<and> D \<and> E \<and> F \<and> G \<and> H \<and> I \<and> J \<Longrightarrow> G"
  by blast

lemma pick9: "A \<and> B \<and> C \<and> D \<and> E \<and> F \<and> G \<and> H \<and> I \<and> J \<Longrightarrow> I"
  by blast

lemma pick10: "A \<and> B \<and> C \<and> D \<and> E \<and> F \<and> G \<and> H \<and> I \<and> J \<Longrightarrow> J"
  by blast


lemma ensure_h264_mp4_safe_examples:
  "files (snd (ensure_h264_mp4 tools_env [''v'', ''a.mov''] (one_file [''v'', ''a.mov''] ''raw'')))
      [''v'', ''a_tmpconv.mp4''] = None \<and>
   files (snd (ensure_h264_mp4 tools_env [''v'', ''a.mov''] (one_file [''v'', ''a.mov''] ''raw'')))
      [''v'', ''a.mp4''] \<noteq> None \<and>
   files (snd (ensure_h264_mp4 tools_env [''v'', ''a.mov''] (one_file [''v'', ''a.mov''] ''raw'')))
      [''v'', ''a.mov''] = None \<and>
   fst (ensure_h264_mp4 broken_tools_env [''v'', ''a.mov''] (one_file [''v'', ''a.mov''] ''raw'')) =
      Inr None \<and>
   files (snd (ensure_h264_mp4 broken_tools_env [''v'', ''a.mov''] (one_file [''v'', ''a.mov''] ''raw'')))
      [''v'', ''a.mov''] = Some ''raw'' \<and>
   files (snd (ensure_h264_mp4 broken_tools_env [''v'', ''a.mov''] (one_file [''v'', ''a.mov''] ''raw'')))
      [''v'', ''a.mp4''] = None \<and>
   files (snd (ensure_h264_mp4 broken_tools_env [''v'', ''a.mov''] (one_file [''v'', ''a.mov''] ''raw'')))
      [''v'', ''a_tmpconv.mp4''] = None \<and>
   ensure_h264_mp4 (ex_env (\<lambda>k m u. Inl ''offline'')) [''v'', ''a.mov''] (one_file [''v'', ''a.mov''] ''raw'') =
      (Inr None, one_file [''v'', ''a.mov''] ''raw'')"
proof -
  let ?src = "[''v'', ''a.mov'']"
  let ?st = "one_file ?src ''raw''"
  have n: "path_name ?src \<noteq> []" using a_mov_parts by simp
  have p: "path_parent ?src = [''v'']" "path_stem ?src = ''a''" using a_mov_parts by simp_all
  have fin: "path_parent ?src @ [path_stem ?src @ ''.mp4''] = [''v'', ''a.mp4'']"
    and tmp: "path_parent ?src @ [path_stem ?src @ ''_tmpconv.mp4''] = [''v'', ''a_tmpconv.mp4'']"
    by (simp_all add: p)
  have r1: "ensure_h264_mp4 tools_env ?src ?st =
      (Inr (Some [''v'', ''a.mp4'']), snd (ensure_h264_mp4 tools_env ?src ?st))"
    using tools_run_result by (simp add: prod_eq_iff)
  note t1 = ensure_h264_mp4_safe [OF n r1, unfolded fin tmp]
  note g1 = pick7 [OF t1, THEN mp, OF refl]
  have ne: "?src \<noteq> [''v'', ''a.mp4'']" by simp
  from g1 ne have a:
    "files (snd (ensure_h264_mp4 tools_env ?src ?st)) [''v'', ''a_tmpconv.mp4''] = None \<and>
     files (snd (ensure_h264_mp4 tools_env ?src ?st)) [''v'', ''a.mp4''] \<noteq> None \<and>
     files (snd (ensure_h264_mp4 tools_env ?src ?st)) ?src = None"
    by blast
  have r2: "ensure_h264_mp4 broken_tools_env ?src ?st =
      (fst (ensure_h264_mp4 broken_tools_env ?src ?st), snd (ensure_h264_mp4 broken_tools_env ?src ?st))"
    by simp
  note t2 = ensure_h264_mp4_safe [OF n r2, unfolded fin tmp]
  have h: "has_ffmpeg broken_tools_env \<and>
      \<not> fst (convert_to_h264_mp4 broken_tools_env ?src [''v'', ''a_tmpconv.mp4'']
              (unlink_if_exists broken_tools_env [''v'', ''a_tmpconv.mp4''] ?st))"
    using broken_convert_fails has_ffmpeg_examples by simp
  note g2 = pick10 [OF t2, THEN mp, OF h]
  have f: "files ?st ?src = Some ''raw''" "files ?st [''v'', ''a.mp4''] = None"
    by (simp_all add: one_file_def new_state_def)
  from g2 broken_unlink_allowed have b:
    "fst (ensure_h264_mp4 broken_tools_env ?src ?st) = Inr None \<and>
     files (snd (ensure_h264_mp4 broken_tools_env ?src ?st)) ?src = files ?st ?src \<and>
     files (snd (ensure_h264_mp4 broken_tools_env ?src ?st)) [''v'', ''a.mp4''] = files ?st [''v'', ''a.mp4''] \<and>
     files (snd (ensure_h264_mp4 broken_tools_env ?src ?st)) [''v'', ''a_tmpconv.mp4''] = None"
    by blast
  have r3: "ensure_h264_mp4 (ex_env (\<lambda>k m u. Inl ''offline'')) ?src ?st =
      (fst (ensure_h264_mp4 (ex_env (\<lambda>k m u. Inl ''offline'')) ?src ?st), snd (ensure_h264_mp4 (ex_env (\<lambda>k m u. Inl ''offline'')) ?src ?st))"
    by simp
  note t3 = ensure_h264_mp4_safe [OF n r3]
  have nh: "\<not> has_ffmpeg (ex_env (\<lambda>k m u. Inl ''offline''))" using has_ffmpeg_examples by simp
  note g3 = pick9 [OF t3, THEN mp, OF nh]
  have c: "ensure_h264_mp4 (ex_env (\<lambda>k m u. Inl ''offline'')) ?src ?st = (Inr None, ?st)"
    using g3 by (simp add: prod_eq_iff)
  from a b c f show ?thesis by simp
qed

text \<open>
  C3: the claim that the original source is deleted only after the swap succeeds, at a
  source that already has the suffix \<open>.mp4\<close> (the usual name of a downloaded video)
  when the operating system refuses the move of the converted file. The source is the
  file at the final path, so the code unlinks it before \<open>replace\<close>: the call
  returns \<open>None\<close>, the source is gone, no file is at the final path and the temporary
  file is left behind. A source \<open>a.mov\<close> under the same refusal is kept.
\<close>

theorem ensure_h264_mp4_loses_mp4_source:
  "files (one_file [''v'', ''a.mp4''] ''raw'') [''v'', ''a.mp4''] = Some ''raw'' \<and>
   fst (ensure_h264_mp4 locked_env [''v'', ''a.mp4''] (one_file [''v'', ''a.mp4''] ''raw'')) = Inr None \<and>
   files (snd (ensure_h264_mp4 locked_env [''v'', ''a.mp4''] (one_file [''v'', ''a.mp4''] ''raw'')))
     [''v'', ''a.mp4''] = None \<and>
   files (snd (ensure_h264_mp4 locked_env [''v'', ''a.mp4''] (one_file [''v'', ''a.mp4''] ''raw'')))
     [''v'', ''a_tmpconv.mp4''] = Some ''h264:raw'' \<and>
   logged (snd (ensure_h264_mp4 locked_env [''v'', ''a.mp4''] (one_file [''v'', ''a.mp4''] ''raw''))) =
     [LogWarnMove] \<and>
   fst (ensure_h264_mp4 locked_env [''v'', ''a.mov''] (one_file [''v'', ''a.mov''] ''raw'')) = Inr None \<and>
   files (snd (ensure_h264_mp4 locked_env [''v'', ''a.mov''] (one_file [''v'', ''a.mov''] ''raw'')))
     [''v'', ''a.mov''] = Some ''raw''"
  by code_simp

section \<open>Properties of the orchestrator\<close>



lemma memory_name_nonempty: "''memory_'' @ show_int idx @ e \<noteq> []"
  by simp


lemma counters_log_msg: "counters (log_msg line st) = counters st"
  by (simp add: counters_def log_msg_def)

lemma counters_unlink: "counters (snd (unlink env p st)) = counters st"
  by (simp add: counters_def unlink_def)

lemma counters_unlink_if_exists: "counters (unlink_if_exists env p st) = counters st"
  by (simp add: unlink_if_exists_def counters_unlink)

lemma counters_replace_file: "counters (snd (replace_file env a b st)) = counters st"
  by (simp add: counters_def replace_file_def split: option.splits)

lemma counters_write_text: "counters (snd (write_text env p c st)) = counters st"
  by (simp add: counters_def write_text_def)



lemma counters_convert: "counters (snd (convert_to_h264_mp4 env a b st)) = counters st"
  by (simp add: counters_def convert_to_h264_mp4_def Let_def split: prod.splits option.splits)

lemma counters_swap: "counters (snd (swap_into_place env src tmp fin st)) = counters st"
proof -
  have a: "counters (snd (if path_exists fin st then unlink env fin st else (True, st))) = counters st"
    by (simp add: counters_unlink)
  obtain b1 st1 where u: "(if path_exists fin st then unlink env fin st else (True, st)) = (b1, st1)"
    by (cases "if path_exists fin st then unlink env fin st else (True, st)") auto
  then have c1: "counters st1 = counters st" using a by simp
  obtain b2 st2 where r: "replace_file env tmp fin st1 = (b2, st2)"
    by (cases "replace_file env tmp fin st1") auto
  then have c2: "counters st2 = counters st"
    using counters_replace_file [of env tmp fin st1] c1 by simp
  have c3: "counters (snd (unlink env src st2)) = counters st"
    using counters_unlink [of env src st2] c2 by simp
  show ?thesis
    unfolding swap_into_place_def u using r c1 c2 c3 by (cases b1; cases b2) simp_all
qed

lemma counters_ensure: "counters (snd (ensure_h264_mp4 env src st)) = counters st"
proof (cases "has_ffmpeg env")
  case False
  then show ?thesis by (simp add: ensure_h264_mp4_def)
next
  case True
  show ?thesis
  proof (cases "with_suffix src ''.mp4''")
    case (Inl e)
    then show ?thesis using True by (simp add: ensure_h264_mp4_def)
  next
    case (Inr fin)
    let ?tmp = "temp_path_of fin"
    let ?st1 = "unlink_if_exists env ?tmp st"
    obtain b st2 where cv: "convert_to_h264_mp4 env src ?tmp ?st1 = (b, st2)"
      by (cases "convert_to_h264_mp4 env src ?tmp ?st1") auto
    have c2: "counters st2 = counters st"
      using counters_convert [of env src ?tmp ?st1] cv by (simp add: counters_unlink_if_exists)
    obtain b3 st3 where sw: "swap_into_place env src ?tmp fin st2 = (b3, st3)"
      by (cases "swap_into_place env src ?tmp fin st2") auto
    have c3: "counters st3 = counters st"
      using counters_swap [of env src ?tmp fin st2] sw c2 by simp
    show ?thesis
      using True Inr cv sw c2 c3
      by (cases b; cases b3)
        (simp_all add: ensure_h264_mp4_def Let_def counters_unlink_if_exists counters_log_msg)
  qed
qed

lemma counters_transcode_step: "counters (snd (transcode_step env dest st)) = counters st"
proof -
  obtain r st1 where e: "ensure_h264_mp4 env dest st = (r, st1)"
    by (cases "ensure_h264_mp4 env dest st") auto
  then have "counters st1 = counters st" using counters_ensure [of env dest st] by simp
  then show ?thesis using e
    by (simp add: transcode_step_def counters_log_msg split: sum.splits option.splits)
qed









end
